theory Spec2Isabelle
  imports Complex_Main "HOL-Library.Word"
begin

section \<open>DIY thermal cycler for PCR: the sketch \<open>pcrssv.ino\<close>\<close>

text \<open>
  The sketch drives a heater and a fan from one thermocouple and one push button.
  Temperatures are C \<open>double\<close>s. The thermocouple converter delivers quarter degrees
  between 0 and 1023.75, and every constant of the sketch is a small dyadic number, so
  the sums and differences the sketch forms are exact; a temperature is modelled as a
  \<open>real\<close>; a reading is always a number, the model has no NaN. Times are
  \<open>unsigned long\<close> milliseconds, modelled as 32-bit words, so that \<open>millis() - start\<close>
  wraps as it does on the board.
\<close>

subsection \<open>Configuration (the \<open>#define\<close>s)\<close>

type_synonym ulong = "32 word"

definition NUM_CYCLES :: int where "NUM_CYCLES = 32"

definition DENATURE_TEMP :: real where "DENATURE_TEMP = 94.0"
definition ANNEALING_TEMP :: real where "ANNEALING_TEMP = 60.0"
definition EXTENSION_TEMP :: real where "EXTENSION_TEMP = 72.0"
definition FAN_THRESHOLD_TEMP :: real where "FAN_THRESHOLD_TEMP = 0.75"
definition SETPOINT_THRESHOLD_TEMP :: real where "SETPOINT_THRESHOLD_TEMP = 0.5"
definition STABILITY_THRESHOLD_TEMP :: real where "STABILITY_THRESHOLD_TEMP = 1.25"
definition APPROACH_THRESHOLD_TEMP :: real where "APPROACH_THRESHOLD_TEMP = 2.0"

definition MAX_PULSE_DURATION :: int where "MAX_PULSE_DURATION = 650"
definition PULSE_DURATION_MULT :: int where "PULSE_DURATION_MULT = 600"
definition MIN_PULSE_DURATION :: int where "MIN_PULSE_DURATION = 80"
definition OVERHEAT_TIME :: ulong where "OVERHEAT_TIME = 250"

definition DENATURE_TIME :: ulong where "DENATURE_TIME = 33000"
definition ANNEALING_TIME :: ulong where "ANNEALING_TIME = 33000"
definition EXTENSION_TIME :: ulong where "EXTENSION_TIME = 35000"
definition INITIAL_DENATURE_TIME :: ulong where "INITIAL_DENATURE_TIME = 300000"
definition FINAL_EXTENSION_TIME :: ulong where "FINAL_EXTENSION_TIME = 600000"
definition COOL_SAMPLE_TIME :: ulong where "COOL_SAMPLE_TIME = 300"
definition HOLD_PULSE_DURATION :: ulong where "HOLD_PULSE_DURATION = 210"
definition HOLD_PAUSE_DURATION :: ulong where "HOLD_PAUSE_DURATION = 90"

definition ROOM_TEMP :: real where "ROOM_TEMP = 18"
definition MAX_ALLOWED_TEMP :: real where "MAX_ALLOWED_TEMP = 100"
definition MAX_HEAT_INCREASE :: real where "MAX_HEAT_INCREASE = 2.5"
definition MAX_ALLOWED_TEMP_TIME :: ulong where "MAX_ALLOWED_TEMP_TIME = 1000"
definition MAX_HEAT_INCREASE_TIME :: ulong where "MAX_HEAT_INCREASE_TIME = 1000"

named_theorems params \<open>the values of the configuration constants\<close>

lemmas [params] =
  NUM_CYCLES_def DENATURE_TEMP_def ANNEALING_TEMP_def EXTENSION_TEMP_def
  FAN_THRESHOLD_TEMP_def SETPOINT_THRESHOLD_TEMP_def STABILITY_THRESHOLD_TEMP_def
  APPROACH_THRESHOLD_TEMP_def MAX_PULSE_DURATION_def PULSE_DURATION_MULT_def
  MIN_PULSE_DURATION_def OVERHEAT_TIME_def DENATURE_TIME_def ANNEALING_TIME_def
  EXTENSION_TIME_def INITIAL_DENATURE_TIME_def FINAL_EXTENSION_TIME_def
  COOL_SAMPLE_TIME_def HOLD_PULSE_DURATION_def HOLD_PAUSE_DURATION_def ROOM_TEMP_def
  MAX_ALLOWED_TEMP_def MAX_HEAT_INCREASE_def MAX_ALLOWED_TEMP_TIME_def
  MAX_HEAT_INCREASE_TIME_def

subsection \<open>Phases, pins, log records\<close>

datatype phase = IDLE | HEATING | COOLING | DENATURATION | ANNEALING | EXTENSION | FAULT

text \<open>The table \<open>char phases[7][5]\<close>; the log writes the first letter of the entry.\<close>

fun phases :: "phase \<Rightarrow> string" where
  "phases IDLE = ''IDLE''"
| "phases HEATING = ''HEAT''"
| "phases COOLING = ''COOL''"
| "phases DENATURATION = ''DEN ''"
| "phases ANNEALING = ''ANN ''"
| "phases EXTENSION = ''EXT ''"
| "phases FAULT = ''FLT''"

datatype pin = HEAT_PIN | FAN_PIN

text \<open>
  One line of the CSV log, field by field, before \<open>sprintf\<close> formats them:
  total time, cycle number, phase letter, phase time, temperature, fault code.
\<close>

record log_record =
  total_h :: nat
  total_m :: nat
  total_s :: nat
  cycle_number :: int
  phase_letter :: char
  phase_m :: nat
  phase_s :: nat
  temp_i :: int
  temp_d :: int
  fault_code :: char

text \<open>What the board does to the outside world, in order.\<close>

datatype event = is_Write: Write pin bool | is_Delay: Delay ulong | is_Emit: Emit log_record

subsection \<open>The globals and the board\<close>

text \<open>
  The first ten fields are the sketch's global variables. The rest is the board: the
  millisecond clock, the readings the thermocouple will deliver, the levels the button
  pin will show (\<open>True\<close> is \<open>HIGH\<close>; the pin is pulled up, so it reads \<open>HIGH\<close> once
  the recorded levels are used up), the two output pins and the trace of events.
  The clock advances in \<open>delay\<close> only. A run on a finite list of readings stops with
  \<open>None\<close> when the list is used up before the run is over.
\<close>

record pcr =
  currInButton :: bool
  prevInButton :: bool
  startCycleTime :: ulong
  startPhaseTime :: ulong
  timeCounter :: ulong
  currCycle :: int
  currPhase :: phase
  currTemp :: real
  prevTemp :: real
  faultCode :: char
  clock :: ulong
  sensor :: "real list"
  button :: "bool list"
  heatPin :: bool
  fanPin :: bool
  trace :: "event list"

text \<open>
  The globals as C initialises them, on a board whose clock starts at 0 and that will
  deliver the given readings and button levels; and \<open>setup()\<close>, which sets the
  phase and drives both outputs low.
\<close>

definition power_on :: "real list \<Rightarrow> bool list \<Rightarrow> pcr" where
  "power_on readings levels =
     \<lparr>currInButton = False, prevInButton = False, startCycleTime = 0, startPhaseTime = 0,
      timeCounter = 0, currCycle = 0, currPhase = IDLE, currTemp = 0, prevTemp = 0,
      faultCode = CHR ''0'', clock = 0, sensor = readings, button = levels,
      heatPin = False, fanPin = False, trace = []\<rparr>"

text \<open>The events of \<open>s'\<close> that came after those of \<open>s\<close>.\<close>

definition events_since :: "pcr \<Rightarrow> pcr \<Rightarrow> event list" where
  "events_since s s' = drop (length (trace s)) (trace s')"

definition millis :: "pcr \<Rightarrow> ulong" where
  "millis s = clock s"

definition delay :: "ulong \<Rightarrow> pcr \<Rightarrow> pcr" where
  "delay ms s = s\<lparr>clock := clock s + ms, trace := trace s @ [Delay ms]\<rparr>"

fun digitalWrite :: "pin \<Rightarrow> bool \<Rightarrow> pcr \<Rightarrow> pcr" where
  "digitalWrite HEAT_PIN v s = s\<lparr>heatPin := v, trace := trace s @ [Write HEAT_PIN v]\<rparr>"
| "digitalWrite FAN_PIN v s = s\<lparr>fanPin := v, trace := trace s @ [Write FAN_PIN v]\<rparr>"

definition setup_board :: "pcr \<Rightarrow> pcr" where
  "setup_board s = digitalWrite FAN_PIN False (digitalWrite HEAT_PIN False (s\<lparr>currPhase := IDLE\<rparr>))"

text \<open>\<open>digitalRead(START_STOP_PIN)\<close>: the next recorded level of the button pin.\<close>

definition digitalRead :: "pcr \<Rightarrow> bool \<times> pcr" where
  "digitalRead s = (case button s of [] \<Rightarrow> (True, s) | b # bs \<Rightarrow> (b, s\<lparr>button := bs\<rparr>))"

text \<open>\<open>thermocouple.readCelsius()\<close>: the next reading, if there is one.\<close>

definition readCelsius :: "pcr \<Rightarrow> (real \<times> pcr) option" where
  "readCelsius s = (case sensor s of [] \<Rightarrow> None | t # ts \<Rightarrow> Some (t, s\<lparr>sensor := ts\<rparr>))"

text \<open>The conversion of a \<open>double\<close> to \<open>int\<close> drops the fraction (towards zero).\<close>

definition c_int :: "real \<Rightarrow> int" where
  "c_int x = (if 0 \<le> x then \<lfloor>x\<rfloor> else \<lceil>x\<rceil>)"

subsection \<open>\<open>buttonPressed\<close>: a falling edge of the button pin\<close>

definition buttonPressed :: "pcr \<Rightarrow> bool \<times> pcr" where
  "buttonPressed s =
     (case digitalRead s of (lvl, s1) \<Rightarrow>
        let s2 = s1\<lparr>currInButton := lvl\<rparr>;
            ris = (currInButton s2 \<noteq> prevInButton s2 \<and> currInButton s2 = False)
        in (ris, s2\<lparr>prevInButton := currInButton s2\<rparr>))"

subsection \<open>\<open>log\<close>: the rate-limited CSV line\<close>

text \<open>The whole seconds since the run started, \<open>ts\<close> in the sketch.\<close>

definition run_seconds :: "pcr \<Rightarrow> ulong" where
  "run_seconds s = (millis s - startCycleTime s) div 1000"

definition csv_line :: "pcr \<Rightarrow> log_record" where
  "csv_line s =
     (let ts = unat (run_seconds s);
          t = ts mod 3600;
          pts = unat ((millis s - startPhaseTime s) div 1000);
          pt = pts mod 3600;
          iPart = c_int (currTemp s);
          dPart = c_int ((currTemp s - real_of_int iPart) * 100)
      in \<lparr>total_h = ts div 3600, total_m = t div 60, total_s = t mod 60,
          cycle_number = currCycle s + 1,
          phase_letter = hd (phases (currPhase s)),
          phase_m = pt div 60, phase_s = pt mod 60,
          temp_i = iPart, temp_d = dPart,
          fault_code = faultCode s\<rparr>)"

definition log_line :: "bool \<Rightarrow> pcr \<Rightarrow> pcr" where
  "log_line force s =
     (let ts = run_seconds s in
      if ts > timeCounter s \<or> force
      then s\<lparr>timeCounter := ts, trace := trace s @ [Emit (csv_line s)]\<rparr>
      else s)"

subsection \<open>The heating pulse\<close>

text \<open>
  \<open>int pulseDuration = min(MAX_PULSE_DURATION,
     (PULSE_DURATION_MULT * (setpoint - currTemp)) + MIN_PULSE_DURATION)\<close>:
  the minimum is taken among \<open>double\<close>s and then converted to \<open>int\<close>.
\<close>

definition pulseDuration :: "real \<Rightarrow> real \<Rightarrow> int" where
  "pulseDuration setpoint temp =
     c_int (min (real_of_int MAX_PULSE_DURATION)
              (real_of_int PULSE_DURATION_MULT * (setpoint - temp) + real_of_int MIN_PULSE_DURATION))"

subsection \<open>What every regulation loop keeps\<close>

text \<open>
  The regulation routines touch the globals and the board only through a handful of
  steps. A property of the state that each of these steps keeps is kept by every loop;
  the rules below say so once per loop.
\<close>

definition preserved :: "(pcr \<Rightarrow> bool) \<Rightarrow> bool" where
  "preserved I \<longleftrightarrow>
     (\<forall>s. I s \<longrightarrow> I (snd (buttonPressed s))) \<and>
     (\<forall>s ms. I s \<longrightarrow> I (delay ms s)) \<and>
     (\<forall>s p v. I s \<longrightarrow> I (digitalWrite p v s)) \<and>
     (\<forall>s t s1. I s \<longrightarrow> readCelsius s = Some (t, s1) \<longrightarrow> I (s1\<lparr>currTemp := t\<rparr>)) \<and>
     (\<forall>s. I s \<longrightarrow> I (log_line False s)) \<and>
     (\<forall>s. I s \<longrightarrow> I (s\<lparr>prevTemp := currTemp s\<rparr>)) \<and>
     (\<forall>s. I s \<longrightarrow> I (s\<lparr>startPhaseTime := millis s\<rparr>))"

lemma preserved_button: "preserved I \<Longrightarrow> I s \<Longrightarrow> buttonPressed s = (p, s1) \<Longrightarrow> I s1"
  unfolding preserved_def by (metis snd_conv)

lemma preserved_delay: "preserved I \<Longrightarrow> I s \<Longrightarrow> I (delay ms s)"
  unfolding preserved_def by simp

lemma preserved_write: "preserved I \<Longrightarrow> I s \<Longrightarrow> I (digitalWrite p v s)"
  unfolding preserved_def by simp

lemma preserved_read:
  "preserved I \<Longrightarrow> I s \<Longrightarrow> readCelsius s = Some (t, s1) \<Longrightarrow> I (s1\<lparr>currTemp := t\<rparr>)"
  unfolding preserved_def by simp

lemma preserved_log: "preserved I \<Longrightarrow> I s \<Longrightarrow> I (log_line False s)"
  unfolding preserved_def by simp

lemma preserved_prev: "preserved I \<Longrightarrow> I s \<Longrightarrow> I (s\<lparr>prevTemp := currTemp s\<rparr>)"
  unfolding preserved_def by simp

lemma preserved_start: "preserved I \<Longrightarrow> I s \<Longrightarrow> I (s\<lparr>startPhaseTime := millis s\<rparr>)"
  unfolding preserved_def by simp

lemma preserved_sample:
  assumes "preserved I" and "I s" and "readCelsius (delay ms s) = Some (t, s1)"
  shows "I (log_line False (s1\<lparr>currTemp := t\<rparr>))"
proof -
  have "I (delay ms s)" using assms(1,2) by (rule preserved_delay)
  then have "I (s1\<lparr>currTemp := t\<rparr>)" using assms(1,3) by (simp add: preserved_read)
  then show ?thesis using assms(1) by (simp add: preserved_log)
qed

lemma sensor_readCelsius_less:
  "readCelsius s = Some (t, s1) \<Longrightarrow> length (sensor s1) < length (sensor s)"
  by (auto simp: readCelsius_def split: list.splits)

text \<open>What the steps leave alone.\<close>

lemma digitalWrite_frame [simp]:
  "sensor (digitalWrite p v s) = sensor s"
  "button (digitalWrite p v s) = button s"
  "currTemp (digitalWrite p v s) = currTemp s"
  "prevTemp (digitalWrite p v s) = prevTemp s"
  "currCycle (digitalWrite p v s) = currCycle s"
  "currPhase (digitalWrite p v s) = currPhase s"
  "faultCode (digitalWrite p v s) = faultCode s"
  "timeCounter (digitalWrite p v s) = timeCounter s"
  "startCycleTime (digitalWrite p v s) = startCycleTime s"
  "startPhaseTime (digitalWrite p v s) = startPhaseTime s"
  "prevInButton (digitalWrite p v s) = prevInButton s"
  "currInButton (digitalWrite p v s) = currInButton s"
  "clock (digitalWrite p v s) = clock s"
  "trace (digitalWrite p v s) = trace s @ [Write p v]"
  by (cases p; simp)+

lemma digitalWrite_pins [simp]:
  "heatPin (digitalWrite HEAT_PIN v s) = v"
  "fanPin (digitalWrite HEAT_PIN v s) = fanPin s"
  "fanPin (digitalWrite FAN_PIN v s) = v"
  "heatPin (digitalWrite FAN_PIN v s) = heatPin s"
  by simp_all

lemma digitalWrite_faultCode [simp]:
  "digitalWrite p v (s\<lparr>faultCode := c\<rparr>) = (digitalWrite p v s)\<lparr>faultCode := c\<rparr>"
  by (cases p) simp_all

declare digitalWrite.simps [simp del]

lemma delay_frame [simp]:
  "sensor (delay ms s) = sensor s"
  "button (delay ms s) = button s"
  "currTemp (delay ms s) = currTemp s"
  "prevTemp (delay ms s) = prevTemp s"
  "currCycle (delay ms s) = currCycle s"
  "currPhase (delay ms s) = currPhase s"
  "faultCode (delay ms s) = faultCode s"
  "timeCounter (delay ms s) = timeCounter s"
  "startCycleTime (delay ms s) = startCycleTime s"
  "startPhaseTime (delay ms s) = startPhaseTime s"
  "prevInButton (delay ms s) = prevInButton s"
  "currInButton (delay ms s) = currInButton s"
  "heatPin (delay ms s) = heatPin s"
  "fanPin (delay ms s) = fanPin s"
  "clock (delay ms s) = clock s + ms"
  "trace (delay ms s) = trace s @ [Delay ms]"
  by (simp_all add: delay_def)

lemma log_line_frame [simp]:
  "sensor (log_line force s) = sensor s"
  "button (log_line force s) = button s"
  "currTemp (log_line force s) = currTemp s"
  "prevTemp (log_line force s) = prevTemp s"
  "currCycle (log_line force s) = currCycle s"
  "currPhase (log_line force s) = currPhase s"
  "faultCode (log_line force s) = faultCode s"
  "startCycleTime (log_line force s) = startCycleTime s"
  "startPhaseTime (log_line force s) = startPhaseTime s"
  "prevInButton (log_line force s) = prevInButton s"
  "currInButton (log_line force s) = currInButton s"
  "heatPin (log_line force s) = heatPin s"
  "fanPin (log_line force s) = fanPin s"
  "clock (log_line force s) = clock s"
  by (simp_all add: log_line_def Let_def)

lemma buttonPressed_frame:
  assumes "buttonPressed s = (p, s1)"
  shows "sensor s1 = sensor s" and "currTemp s1 = currTemp s" and "prevTemp s1 = prevTemp s"
    and "currCycle s1 = currCycle s" and "currPhase s1 = currPhase s"
    and "faultCode s1 = faultCode s" and "timeCounter s1 = timeCounter s"
    and "startCycleTime s1 = startCycleTime s" and "startPhaseTime s1 = startPhaseTime s"
    and "heatPin s1 = heatPin s" and "fanPin s1 = fanPin s" and "clock s1 = clock s"
    and "trace s1 = trace s"
  using assms by (auto simp: buttonPressed_def digitalRead_def Let_def split: list.splits)

lemma readCelsius_frame:
  assumes "readCelsius s = Some (t, s1)"
  shows "sensor s = t # sensor s1" and "button s1 = button s" and "currTemp s1 = currTemp s"
    and "prevTemp s1 = prevTemp s" and "currCycle s1 = currCycle s"
    and "currPhase s1 = currPhase s" and "faultCode s1 = faultCode s"
    and "timeCounter s1 = timeCounter s" and "startCycleTime s1 = startCycleTime s"
    and "startPhaseTime s1 = startPhaseTime s" and "prevInButton s1 = prevInButton s"
    and "heatPin s1 = heatPin s" and "fanPin s1 = fanPin s" and "clock s1 = clock s"
    and "trace s1 = trace s"
  using assms by (auto simp: readCelsius_def split: list.splits)

lemma sensor_sample_less:
  "readCelsius (delay ms s) = Some (t, s1)
    \<Longrightarrow> length (sensor (log_line False (s1\<lparr>currTemp := t\<rparr>))) < length (sensor s)"
  by (auto simp: readCelsius_def split: list.splits)

lemma sensor_bound_preserved: "preserved (\<lambda>s. length (sensor s) \<le> n)"
  unfolding preserved_def
  by (auto simp: readCelsius_def buttonPressed_def digitalRead_def Let_def split: list.splits)

subsection \<open>\<open>heatUp\<close>: the three waiting loops\<close>

text \<open>
  The damping loop \<open>do { prevTemp = currTemp; delay(OVERHEAT_TIME); currTemp = read;
  log(); } while (currTemp > prevTemp)\<close>.
\<close>

function heatUp_damp :: "pcr \<Rightarrow> pcr option" where
  "heatUp_damp s =
     (case readCelsius (delay OVERHEAT_TIME (s\<lparr>prevTemp := currTemp s\<rparr>)) of
        None \<Rightarrow> None
      | Some (t, s1) \<Rightarrow>
          let s2 = log_line False (s1\<lparr>currTemp := t\<rparr>) in
          if currTemp s2 > prevTemp s2 then heatUp_damp s2 else Some s2)"
  by pat_completeness auto
termination
  by (relation "measure (\<lambda>s. length (sensor s))") (auto dest: sensor_sample_less)

text \<open>
  The slope guard \<open>while ((currTemp - prevTemp) >= MAX_HEAT_INCREASE) { prevTemp =
  currTemp; delay(MAX_HEAT_INCREASE_TIME); currTemp = read; log(); }\<close>.
\<close>

function heatUp_slope :: "pcr \<Rightarrow> pcr option" where
  "heatUp_slope s =
     (if currTemp s - prevTemp s \<ge> MAX_HEAT_INCREASE then
        (case readCelsius (delay MAX_HEAT_INCREASE_TIME (s\<lparr>prevTemp := currTemp s\<rparr>)) of
           None \<Rightarrow> None
         | Some (t, s1) \<Rightarrow> heatUp_slope (log_line False (s1\<lparr>currTemp := t\<rparr>)))
      else Some s)"
  by pat_completeness auto
termination
  by (relation "measure (\<lambda>s. length (sensor s))") (auto dest: sensor_sample_less)

text \<open>
  The ceiling guard \<open>while (currTemp >= MAX_ALLOWED_TEMP) { delay(MAX_ALLOWED_TEMP_TIME);
  currTemp = read; log(); }\<close>.
\<close>

function heatUp_ceiling :: "pcr \<Rightarrow> pcr option" where
  "heatUp_ceiling s =
     (if currTemp s \<ge> MAX_ALLOWED_TEMP then
        (case readCelsius (delay MAX_ALLOWED_TEMP_TIME s) of
           None \<Rightarrow> None
         | Some (t, s1) \<Rightarrow> heatUp_ceiling (log_line False (s1\<lparr>currTemp := t\<rparr>)))
      else Some s)"
  by pat_completeness auto
termination
  by (relation "measure (\<lambda>s. length (sensor s))") (auto dest: sensor_sample_less)

declare heatUp_damp.simps [simp del] heatUp_slope.simps [simp del]
  heatUp_ceiling.simps [simp del]

lemma heatUp_damp_rule:
  assumes "preserved I"
  shows "I s \<Longrightarrow> heatUp_damp s = Some s' \<Longrightarrow> I s'"
proof (induction "length (sensor s)" arbitrary: s rule: less_induct)
  case less
  let ?s0 = "s\<lparr>prevTemp := currTemp s\<rparr>"
  from less.prems(2) obtain t s1 where
    r: "readCelsius (delay OVERHEAT_TIME ?s0) = Some (t, s1)"
    by (subst (asm) heatUp_damp.simps) (auto split: option.splits)
  let ?s2 = "log_line False (s1\<lparr>currTemp := t\<rparr>)"
  have "I ?s0" using assms less.prems(1) by (rule preserved_prev)
  then have I2: "I ?s2" using assms r by (simp add: preserved_sample)
  have lt: "length (sensor ?s2) < length (sensor s)"
    using sensor_sample_less [OF r] by simp
  show ?case
  proof (cases "currTemp ?s2 > prevTemp ?s2")
    case True
    with less.prems(2) r have "heatUp_damp ?s2 = Some s'"
      by (subst (asm) heatUp_damp.simps) (simp add: Let_def)
    with less.hyps [OF lt I2] show ?thesis .
  next
    case False
    with less.prems(2) r have "s' = ?s2"
      by (subst (asm) heatUp_damp.simps) (simp add: Let_def)
    with I2 show ?thesis by simp
  qed
qed

lemma heatUp_slope_rule:
  assumes "preserved I"
  shows "I s \<Longrightarrow> heatUp_slope s = Some s' \<Longrightarrow> I s'"
proof (induction "length (sensor s)" arbitrary: s rule: less_induct)
  case less
  show ?case
  proof (cases "currTemp s - prevTemp s \<ge> MAX_HEAT_INCREASE")
    case True
    let ?s0 = "s\<lparr>prevTemp := currTemp s\<rparr>"
    from True less.prems(2) obtain t s1 where
      r: "readCelsius (delay MAX_HEAT_INCREASE_TIME ?s0) = Some (t, s1)"
      and k: "heatUp_slope (log_line False (s1\<lparr>currTemp := t\<rparr>)) = Some s'"
      by (subst (asm) heatUp_slope.simps) (auto split: option.splits)
    have "I ?s0" using assms less.prems(1) by (rule preserved_prev)
    then have I2: "I (log_line False (s1\<lparr>currTemp := t\<rparr>))"
      using assms r by (simp add: preserved_sample)
    have lt: "length (sensor (log_line False (s1\<lparr>currTemp := t\<rparr>))) < length (sensor s)"
      using sensor_sample_less [OF r] by simp
    from less.hyps [OF lt I2 k] show ?thesis .
  next
    case False
    with less.prems show ?thesis by (subst (asm) heatUp_slope.simps) simp
  qed
qed

lemma heatUp_ceiling_rule:
  assumes "preserved I"
  shows "I s \<Longrightarrow> heatUp_ceiling s = Some s' \<Longrightarrow> I s'"
proof (induction "length (sensor s)" arbitrary: s rule: less_induct)
  case less
  show ?case
  proof (cases "currTemp s \<ge> MAX_ALLOWED_TEMP")
    case True
    with less.prems(2) obtain t s1 where
      r: "readCelsius (delay MAX_ALLOWED_TEMP_TIME s) = Some (t, s1)"
      and k: "heatUp_ceiling (log_line False (s1\<lparr>currTemp := t\<rparr>)) = Some s'"
      by (subst (asm) heatUp_ceiling.simps) (auto split: option.splits)
    have I2: "I (log_line False (s1\<lparr>currTemp := t\<rparr>))"
      using assms less.prems(1) r by (simp add: preserved_sample)
    have lt: "length (sensor (log_line False (s1\<lparr>currTemp := t\<rparr>))) < length (sensor s)"
      using sensor_sample_less [OF r] by simp
    from less.hyps [OF lt I2 k] show ?thesis .
  next
    case False
    with less.prems show ?thesis by (subst (asm) heatUp_ceiling.simps) simp
  qed
qed

lemmas heatUp_damp_sensor = heatUp_damp_rule [OF sensor_bound_preserved, OF order_refl]
lemmas heatUp_slope_sensor = heatUp_slope_rule [OF sensor_bound_preserved, OF order_refl]
lemmas heatUp_ceiling_sensor = heatUp_ceiling_rule [OF sensor_bound_preserved, OF order_refl]

subsection \<open>\<open>heatUp\<close>\<close>

text \<open>
  One pass through the body of a loop either leaves the loop by \<open>break\<close>, with the
  value \<open>ris\<close> has then, or reaches the end of the body.
\<close>

datatype flow = Break bool pcr | Next pcr

text \<open>
  The body of \<open>while (currTemp < setpoint) { ... }\<close>. \<open>curIteration\<close> is the
  counter before the pass increments it; it is only tested for parity.
\<close>

definition heatUp_body :: "real \<Rightarrow> int \<Rightarrow> pcr \<Rightarrow> flow option" where
  "heatUp_body setpoint curIteration s =
     (case buttonPressed s of
        (True, s1) \<Rightarrow> Some (Break False (s1\<lparr>faultCode := CHR ''1''\<rparr>))
      | (False, s1) \<Rightarrow>
          (case readCelsius
                  (delay (word_of_int (pulseDuration setpoint (currTemp s1)))
                     (digitalWrite HEAT_PIN True s1)) of
             None \<Rightarrow> None
           | Some (t, s2) \<Rightarrow>
               let s3 = digitalWrite HEAT_PIN False (log_line False (s2\<lparr>currTemp := t\<rparr>)) in
               if currTemp s3 \<ge> setpoint then Some (Break True (s3\<lparr>faultCode := CHR ''0''\<rparr>))
               else
                 (case (if setpoint - currTemp s3 < APPROACH_THRESHOLD_TEMP
                        then heatUp_damp s3 else Some s3) of
                    None \<Rightarrow> None
                  | Some s4 \<Rightarrow>
                      if currTemp s4 \<ge> setpoint
                      then Some (Break True (s4\<lparr>faultCode := CHR ''0''\<rparr>))
                      else if (curIteration + 1) mod 2 = 0
                              \<and> currTemp s4 < prevTemp s4 - STABILITY_THRESHOLD_TEMP
                      then Some (Break False (s4\<lparr>faultCode := CHR ''4''\<rparr>))
                      else
                        (case heatUp_slope
                                (if (curIteration + 1) mod 2 = 0 then s4
                                 else s4\<lparr>prevTemp := currTemp s4\<rparr>) of
                           None \<Rightarrow> None
                         | Some s5 \<Rightarrow>
                             (case heatUp_ceiling s5 of
                                None \<Rightarrow> None
                              | Some s6 \<Rightarrow> Some (Next s6))))))"

text \<open>
  What a routine hands back when it started in a state with the property \<open>I\<close>: either
  a state with \<open>I\<close> and the result \<open>ris\<close> it began with, or such a state with the fault
  code overwritten, by \<open>'0'\<close> exactly when the result is success.
\<close>

definition exits :: "(pcr \<Rightarrow> bool) \<Rightarrow> bool \<Rightarrow> bool \<Rightarrow> pcr \<Rightarrow> bool" where
  "exits I ris r s' \<longleftrightarrow>
     (r = ris \<and> I s') \<or> (\<exists>s0 c. I s0 \<and> s' = s0\<lparr>faultCode := c\<rparr> \<and> (r \<longleftrightarrow> c = CHR ''0''))"

lemma exits_fault: "I s0 \<Longrightarrow> (r \<longleftrightarrow> c = CHR ''0'') \<Longrightarrow> exits I ris r (s0\<lparr>faultCode := c\<rparr>)"
  unfolding exits_def by blast

lemma exits_same: "I s \<Longrightarrow> exits I ris ris s"
  unfolding exits_def by blast

lemma heatUp_body_rule:
  assumes P: "preserved I" and I: "I s" and run: "heatUp_body setpoint it s = Some f"
  shows "case f of Next s' \<Rightarrow> I s' \<and> length (sensor s') < length (sensor s)
         | Break r s' \<Rightarrow> exits I ris r s'"
proof -
  obtain p s1 where bp: "buttonPressed s = (p, s1)" by (cases "buttonPressed s")
  have I1: "I s1" by (rule preserved_button [OF P I bp])
  have sen1: "sensor s1 = sensor s" by (rule buttonPressed_frame [OF bp])
  show ?thesis
  proof (cases p)
    case True
    with run bp have "f = Break False (s1\<lparr>faultCode := CHR ''1''\<rparr>)"
      by (simp add: heatUp_body_def)
    with I1 show ?thesis by (simp add: exits_fault)
  next
    case False
    let ?sd = "digitalWrite HEAT_PIN True s1"
    let ?ms = "word_of_int (pulseDuration setpoint (currTemp s1)) :: ulong"
    from run bp False obtain t s2 where rd: "readCelsius (delay ?ms ?sd) = Some (t, s2)"
      by (auto simp: heatUp_body_def split: option.splits)
    let ?s3 = "digitalWrite HEAT_PIN False (log_line False (s2\<lparr>currTemp := t\<rparr>))"
    have I3: "I ?s3"
      by (intro preserved_write [OF P] preserved_sample [OF P _ rd] I1)
    have sen3: "length (sensor ?s3) < length (sensor s)"
      using sensor_sample_less [OF rd] sen1 by simp
    show ?thesis
    proof (cases "currTemp ?s3 \<ge> setpoint")
      case True
      with run bp False rd have "f = Break True (?s3\<lparr>faultCode := CHR ''0''\<rparr>)"
        by (simp add: heatUp_body_def Let_def)
      with I3 show ?thesis by (simp add: exits_fault)
    next
      case c3: False
      let ?d = "if setpoint - currTemp ?s3 < APPROACH_THRESHOLD_TEMP
                then heatUp_damp ?s3 else Some ?s3"
      from run bp False rd c3 obtain s4 where d: "?d = Some s4"
        by (auto simp: heatUp_body_def Let_def split: option.splits)
      have I4: "I s4"
        using d I3 heatUp_damp_rule [OF P, of ?s3 s4] by (auto split: if_splits)
      have sen4: "length (sensor s4) \<le> length (sensor ?s3)"
        using d heatUp_damp_sensor [of ?s3 s4] by (auto split: if_splits)
      let ?k = "if currTemp s4 \<ge> setpoint
                then Some (Break True (s4\<lparr>faultCode := CHR ''0''\<rparr>))
                else if (it + 1) mod 2 = 0
                        \<and> currTemp s4 < prevTemp s4 - STABILITY_THRESHOLD_TEMP
                then Some (Break False (s4\<lparr>faultCode := CHR ''4''\<rparr>))
                else
                  (case heatUp_slope
                          (if (it + 1) mod 2 = 0 then s4
                           else s4\<lparr>prevTemp := currTemp s4\<rparr>) of
                     None \<Rightarrow> None
                   | Some s5 \<Rightarrow>
                       (case heatUp_ceiling s5 of
                          None \<Rightarrow> None
                        | Some s6 \<Rightarrow> Some (Next s6)))"
      have k: "?k = Some f"
        using run bp False rd c3 d by (simp add: heatUp_body_def Let_def)
      show ?thesis
      proof (cases "currTemp s4 \<ge> setpoint")
        case True
        with k I4 show ?thesis by (auto simp: exits_fault)
      next
        case c4: False
        show ?thesis
        proof (cases "(it + 1) mod 2 = 0 \<and> currTemp s4 < prevTemp s4 - STABILITY_THRESHOLD_TEMP")
          case True
          with k c4 have "f = Break False (s4\<lparr>faultCode := CHR ''4''\<rparr>)" by auto
          with I4 show ?thesis by (simp add: exits_fault)
        next
          case c5: False
          let ?s4' = "if (it + 1) mod 2 = 0 then s4 else s4\<lparr>prevTemp := currTemp s4\<rparr>"
          have I4': "I ?s4'" using I4 preserved_prev [OF P I4] by simp
          have sen4': "sensor ?s4' = sensor s4" by simp
          from k c4 c5 obtain s5 s6 where sl: "heatUp_slope ?s4' = Some s5"
            and ce: "heatUp_ceiling s5 = Some s6" and f: "f = Next s6"
            by (auto split: option.splits if_splits)
          have I6: "I s6"
            by (rule heatUp_ceiling_rule [OF P heatUp_slope_rule [OF P I4' sl] ce])
          have "length (sensor s6) \<le> length (sensor s4)"
            using heatUp_slope_sensor [OF sl] heatUp_ceiling_sensor [OF ce] sen4'
            by simp
          with sen4 sen3 I6 f show ?thesis by simp
        qed
      qed
    qed
  qed
qed

lemma heatUp_body_sensor:
  "heatUp_body setpoint it s = Some (Next s') \<Longrightarrow> length (sensor s') < length (sensor s)"
  using heatUp_body_rule [OF sensor_bound_preserved order_refl, of setpoint it s "Next s'"]
  by simp

function heatUp_loop :: "real \<Rightarrow> bool \<Rightarrow> int \<Rightarrow> pcr \<Rightarrow> (bool \<times> pcr) option" where
  "heatUp_loop setpoint ris curIteration s =
     (if currTemp s < setpoint then
        (case heatUp_body setpoint curIteration s of
           None \<Rightarrow> None
         | Some (Break r s') \<Rightarrow> Some (r, s')
         | Some (Next s') \<Rightarrow> heatUp_loop setpoint ris (curIteration + 1) s')
      else Some (ris, s))"
  by pat_completeness auto
termination
  by (relation "measure (\<lambda>(setpoint, ris, curIteration, s). length (sensor s))")
    (auto dest: heatUp_body_sensor)

declare heatUp_loop.simps [simp del]

lemma heatUp_loop_rule:
  assumes P: "preserved I"
  shows "I s \<Longrightarrow> heatUp_loop setpoint ris it s = Some (r, s') \<Longrightarrow> exits I ris r s'"
proof (induction "length (sensor s)" arbitrary: s it rule: less_induct)
  case less
  note run = less.prems(2) [unfolded heatUp_loop.simps [of setpoint ris it s]]
  show ?case
  proof (cases "currTemp s < setpoint")
    case False
    with run less.prems(1) show ?thesis by (simp add: exits_same)
  next
    case True
    with run obtain f where b: "heatUp_body setpoint it s = Some f"
      by (auto split: option.splits)
    note rule = heatUp_body_rule [OF P less.prems(1) b, of ris]
    show ?thesis
    proof (cases f)
      case (Break r' s'')
      with run True b rule show ?thesis by simp
    next
      case (Next s'')
      with run True b have "heatUp_loop setpoint ris (it + 1) s'' = Some (r, s')" by simp
      with less.hyps [of s'' "it + 1"] rule Next show ?thesis by simp
    qed
  qed
qed

text \<open>
  \<open>heatUp\<close> itself: the fan is switched off, the phase timer started, the first
  sample taken and logged; then the two entry checks, then the loop.
\<close>

definition heatUp :: "real \<Rightarrow> pcr \<Rightarrow> (bool \<times> pcr) option" where
  "heatUp setpoint s =
     (let s1 = digitalWrite FAN_PIN False s;
          s2 = s1\<lparr>startPhaseTime := millis s1\<rparr>
      in case readCelsius s2 of
           None \<Rightarrow> None
         | Some (t, s3) \<Rightarrow>
             let s4 = log_line False (s3\<lparr>prevTemp := t, currTemp := t\<rparr>) in
             if currTemp s4 < ROOM_TEMP then Some (False, s4\<lparr>faultCode := CHR ''2''\<rparr>)
             else if currTemp s4 > setpoint then Some (False, s4\<lparr>faultCode := CHR ''3''\<rparr>)
             else heatUp_loop setpoint False 0 s4)"

lemma heatUp_rule:
  assumes P: "preserved I" and I: "I s" and run: "heatUp setpoint s = Some (r, s')"
  shows "exits I False r s'"
proof -
  let ?s1 = "digitalWrite FAN_PIN False s"
  let ?s2 = "?s1\<lparr>startPhaseTime := millis ?s1\<rparr>"
  from run obtain t s3 where rd: "readCelsius ?s2 = Some (t, s3)"
    by (auto simp: heatUp_def Let_def split: option.splits)
  let ?s4 = "log_line False (s3\<lparr>prevTemp := t, currTemp := t\<rparr>)"
  have "I ?s2" by (intro preserved_start [OF P] preserved_write [OF P] I)
  then have "I (s3\<lparr>currTemp := t\<rparr>)" using rd by (rule preserved_read [OF P])
  then have "I ((s3\<lparr>currTemp := t\<rparr>)\<lparr>prevTemp := currTemp (s3\<lparr>currTemp := t\<rparr>)\<rparr>)"
    by (rule preserved_prev [OF P])
  then have "I ((s3\<lparr>currTemp := t\<rparr>)\<lparr>prevTemp := t\<rparr>)" by simp
  moreover have eq: "s3\<lparr>prevTemp := t, currTemp := t\<rparr> = (s3\<lparr>currTemp := t\<rparr>)\<lparr>prevTemp := t\<rparr>"
    by (cases s3) simp
  ultimately have "I (s3\<lparr>prevTemp := t, currTemp := t\<rparr>)" by (simp only: eq)
  then have I4: "I ?s4" by (rule preserved_log [OF P])
  from run rd have k:
    "(if currTemp ?s4 < ROOM_TEMP then Some (False, ?s4\<lparr>faultCode := CHR ''2''\<rparr>)
      else if currTemp ?s4 > setpoint then Some (False, ?s4\<lparr>faultCode := CHR ''3''\<rparr>)
      else heatUp_loop setpoint False 0 ?s4) = Some (r, s')"
    by (simp add: heatUp_def Let_def)
  show ?thesis
  proof (cases "currTemp ?s4 < ROOM_TEMP \<or> currTemp ?s4 > setpoint")
    case True
    with k I4 show ?thesis by (auto simp: exits_fault split: if_splits)
  next
    case False
    with k have "heatUp_loop setpoint False 0 ?s4 = Some (r, s')" by (simp split: if_splits)
    with I4 show ?thesis by (rule heatUp_loop_rule [OF P])
  qed
qed

subsection \<open>\<open>coolDown\<close>\<close>

text \<open>The body of \<open>while (currTemp > setpoint + FAN_THRESHOLD_TEMP) { ... }\<close>.\<close>

definition coolDown_body :: "ulong \<Rightarrow> pcr \<Rightarrow> flow option" where
  "coolDown_body maxTimeout s =
     (case readCelsius (delay maxTimeout (digitalWrite FAN_PIN True s)) of
        None \<Rightarrow> None
      | Some (t, s1) \<Rightarrow>
          (case buttonPressed (log_line False (s1\<lparr>currTemp := t\<rparr>)) of
             (True, s2) \<Rightarrow> Some (Break False (s2\<lparr>faultCode := CHR ''1''\<rparr>))
           | (False, s2) \<Rightarrow> Some (Next s2)))"

lemma coolDown_body_rule:
  assumes P: "preserved I" and I: "I s" and run: "coolDown_body maxTimeout s = Some f"
  shows "case f of Next s' \<Rightarrow> I s' \<and> length (sensor s') < length (sensor s)
         | Break r s' \<Rightarrow> exits I ris r s'"
proof -
  let ?s0 = "digitalWrite FAN_PIN True s"
  from run obtain t s1 where rd: "readCelsius (delay maxTimeout ?s0) = Some (t, s1)"
    by (auto simp: coolDown_body_def split: option.splits)
  let ?s1 = "log_line False (s1\<lparr>currTemp := t\<rparr>)"
  obtain p s2 where bp: "buttonPressed ?s1 = (p, s2)" by (cases "buttonPressed ?s1")
  have I1: "I ?s1" by (intro preserved_sample [OF P _ rd] preserved_write [OF P] I)
  have I2: "I s2" by (rule preserved_button [OF P I1 bp])
  have sen: "length (sensor s2) < length (sensor s)"
    using sensor_sample_less [OF rd] buttonPressed_frame(1) [OF bp] by simp
  from run rd bp have "f = (if p then Break False (s2\<lparr>faultCode := CHR ''1''\<rparr>) else Next s2)"
    by (auto simp: coolDown_body_def)
  with I2 sen show ?thesis by (simp add: exits_fault)
qed

lemma coolDown_body_sensor:
  "coolDown_body maxTimeout s = Some (Next s') \<Longrightarrow> length (sensor s') < length (sensor s)"
  using coolDown_body_rule [OF sensor_bound_preserved order_refl, of maxTimeout s "Next s'"]
  by simp

function coolDown_loop :: "real \<Rightarrow> ulong \<Rightarrow> bool \<Rightarrow> pcr \<Rightarrow> (bool \<times> pcr) option" where
  "coolDown_loop setpoint maxTimeout ris s =
     (if currTemp s > setpoint + FAN_THRESHOLD_TEMP then
        (case coolDown_body maxTimeout s of
           None \<Rightarrow> None
         | Some (Break r s') \<Rightarrow> Some (r, s')
         | Some (Next s') \<Rightarrow> coolDown_loop setpoint maxTimeout ris s')
      else Some (ris, s))"
  by pat_completeness auto
termination
  by (relation "measure (\<lambda>(setpoint, maxTimeout, ris, s). length (sensor s))")
    (auto dest: coolDown_body_sensor)

declare coolDown_loop.simps [simp del]

lemma coolDown_loop_rule:
  assumes P: "preserved I"
  shows "I s \<Longrightarrow> coolDown_loop setpoint maxTimeout ris s = Some (r, s') \<Longrightarrow> exits I ris r s'"
proof (induction "length (sensor s)" arbitrary: s rule: less_induct)
  case less
  note run = less.prems(2) [unfolded coolDown_loop.simps [of setpoint maxTimeout ris s]]
  show ?case
  proof (cases "currTemp s > setpoint + FAN_THRESHOLD_TEMP")
    case False
    with run less.prems(1) show ?thesis by (simp add: exits_same)
  next
    case True
    with run obtain f where b: "coolDown_body maxTimeout s = Some f"
      by (auto split: option.splits)
    note rule = coolDown_body_rule [OF P less.prems(1) b, of ris]
    show ?thesis
    proof (cases f)
      case (Break r' s'')
      with run True b rule show ?thesis by simp
    next
      case (Next s'')
      with run True b have "coolDown_loop setpoint maxTimeout ris s'' = Some (r, s')" by simp
      with less.hyps [of s''] rule Next show ?thesis by simp
    qed
  qed
qed

text \<open>
  \<open>coolDown(setpoint, maxTimeout = COOL_SAMPLE_TIME)\<close>: the fan is switched off on
  the way out, whatever the loop returned.
\<close>

definition coolDown :: "real \<Rightarrow> ulong \<Rightarrow> pcr \<Rightarrow> (bool \<times> pcr) option" where
  "coolDown setpoint maxTimeout s =
     (case readCelsius (s\<lparr>startPhaseTime := millis s\<rparr>) of
        None \<Rightarrow> None
      | Some (t, s1) \<Rightarrow>
          (case coolDown_loop setpoint maxTimeout True (log_line False (s1\<lparr>currTemp := t\<rparr>)) of
             None \<Rightarrow> None
           | Some (ris, s2) \<Rightarrow> Some (ris, digitalWrite FAN_PIN False s2)))"

lemma exits_write:
  assumes "preserved I" and "exits I ris r s"
  shows "exits I ris r (digitalWrite p v s)"
proof -
  from assms(2) consider "r = ris" "I s"
    | s0 c where "I s0" "s = s0\<lparr>faultCode := c\<rparr>" "r \<longleftrightarrow> c = CHR ''0''"
    unfolding exits_def by blast
  then show ?thesis
  proof cases
    case 1
    then show ?thesis using preserved_write [OF assms(1)] by (simp add: exits_def)
  next
    case 2
    have "I (digitalWrite p v s0)" using assms(1) 2(1) by (rule preserved_write)
    then have "exits I ris r ((digitalWrite p v s0)\<lparr>faultCode := c\<rparr>)"
      using 2(3) by (rule exits_fault)
    with 2(2) show ?thesis by simp
  qed
qed

lemma coolDown_rule:
  assumes P: "preserved I" and I: "I s" and run: "coolDown setpoint maxTimeout s = Some (r, s')"
  shows "exits I True r s'"
proof -
  let ?s0 = "s\<lparr>startPhaseTime := millis s\<rparr>"
  from run obtain t s1 where rd: "readCelsius ?s0 = Some (t, s1)"
    by (auto simp: coolDown_def split: option.splits)
  let ?s1 = "log_line False (s1\<lparr>currTemp := t\<rparr>)"
  from run rd obtain s2 where lp: "coolDown_loop setpoint maxTimeout True ?s1 = Some (r, s2)"
    and s': "s' = digitalWrite FAN_PIN False s2"
    by (auto simp: coolDown_def split: option.splits)
  have "I ?s0" by (rule preserved_start [OF P I])
  then have "I (s1\<lparr>currTemp := t\<rparr>)" using rd by (rule preserved_read [OF P])
  then have "I ?s1" by (rule preserved_log [OF P])
  then have "exits I True r s2" using lp by (rule coolDown_loop_rule [OF P])
  with s' show ?thesis by (simp add: exits_write [OF P])
qed

subsection \<open>\<open>holdConstantTemp\<close>\<close>

text \<open>
  The correction of one pass: a heater pulse below the setpoint, a fan pulse above the
  setpoint plus its margin, a plain wait in between; then the pause.
\<close>

definition holdConstantTemp_adjust :: "real \<Rightarrow> pcr \<Rightarrow> pcr" where
  "holdConstantTemp_adjust setpoint s =
     delay HOLD_PAUSE_DURATION
       (if currTemp s < setpoint then
          digitalWrite HEAT_PIN False (delay HOLD_PULSE_DURATION (digitalWrite HEAT_PIN True s))
        else if currTemp s > setpoint + SETPOINT_THRESHOLD_TEMP then
          digitalWrite FAN_PIN False (delay HOLD_PULSE_DURATION (digitalWrite FAN_PIN True s))
        else delay HOLD_PULSE_DURATION s)"

text \<open>The body of \<open>while (holdTimeElapsed < duration) { ... }\<close>.\<close>

definition holdConstantTemp_body :: "real \<Rightarrow> pcr \<Rightarrow> flow option" where
  "holdConstantTemp_body setpoint s =
     (case buttonPressed s of
        (True, s1) \<Rightarrow> Some (Break False (s1\<lparr>faultCode := CHR ''1''\<rparr>))
      | (False, s1) \<Rightarrow>
          (case readCelsius s1 of
             None \<Rightarrow> None
           | Some (t, s2) \<Rightarrow>
               Some (Next (holdConstantTemp_adjust setpoint
                             (log_line False (s2\<lparr>currTemp := t\<rparr>))))))"

lemma holdConstantTemp_adjust_sensor [simp]:
  "sensor (holdConstantTemp_adjust setpoint s) = sensor s"
  by (simp add: holdConstantTemp_adjust_def)

lemma holdConstantTemp_adjust_rule:
  assumes P: "preserved I" and I: "I s"
  shows "I (holdConstantTemp_adjust setpoint s)"
  unfolding holdConstantTemp_adjust_def
  by (intro preserved_delay [OF P]) (simp add: preserved_delay [OF P] preserved_write [OF P] I)

lemma holdConstantTemp_body_rule:
  assumes P: "preserved I" and I: "I s" and run: "holdConstantTemp_body setpoint s = Some f"
  shows "case f of Next s' \<Rightarrow> I s' \<and> length (sensor s') < length (sensor s)
         | Break r s' \<Rightarrow> exits I ris r s'"
proof -
  obtain p s1 where bp: "buttonPressed s = (p, s1)" by (cases "buttonPressed s")
  have I1: "I s1" by (rule preserved_button [OF P I bp])
  show ?thesis
  proof (cases p)
    case True
    with run bp have "f = Break False (s1\<lparr>faultCode := CHR ''1''\<rparr>)"
      by (simp add: holdConstantTemp_body_def)
    with I1 show ?thesis by (simp add: exits_fault)
  next
    case False
    with run bp obtain t s2 where rd: "readCelsius s1 = Some (t, s2)"
      and f: "f = Next (holdConstantTemp_adjust setpoint (log_line False (s2\<lparr>currTemp := t\<rparr>)))"
      by (auto simp: holdConstantTemp_body_def split: option.splits)
    have "I (log_line False (s2\<lparr>currTemp := t\<rparr>))"
      by (intro preserved_log [OF P] preserved_read [OF P I1 rd])
    then have "I (holdConstantTemp_adjust setpoint (log_line False (s2\<lparr>currTemp := t\<rparr>)))"
      by (rule holdConstantTemp_adjust_rule [OF P])
    moreover have "length (sensor s2) < length (sensor s)"
      using readCelsius_frame(1) [OF rd] buttonPressed_frame(1) [OF bp] by simp
    ultimately show ?thesis using f by simp
  qed
qed

lemma holdConstantTemp_body_sensor:
  "holdConstantTemp_body setpoint s = Some (Next s') \<Longrightarrow> length (sensor s') < length (sensor s)"
  using holdConstantTemp_body_rule [OF sensor_bound_preserved order_refl, of setpoint s "Next s'"]
  by simp

function holdConstantTemp_loop ::
  "ulong \<Rightarrow> real \<Rightarrow> bool \<Rightarrow> ulong \<Rightarrow> pcr \<Rightarrow> (bool \<times> pcr) option" where
  "holdConstantTemp_loop duration setpoint ris holdTimeElapsed s =
     (if holdTimeElapsed < duration then
        (case holdConstantTemp_body setpoint s of
           None \<Rightarrow> None
         | Some (Break r s') \<Rightarrow> Some (r, s')
         | Some (Next s') \<Rightarrow>
             holdConstantTemp_loop duration setpoint ris (millis s' - startPhaseTime s') s')
      else Some (ris, s))"
  by pat_completeness auto
termination
  by (relation "measure (\<lambda>(duration, setpoint, ris, holdTimeElapsed, s). length (sensor s))")
    (auto dest: holdConstantTemp_body_sensor)

declare holdConstantTemp_loop.simps [simp del]

lemma holdConstantTemp_loop_rule:
  assumes P: "preserved I"
  shows "I s \<Longrightarrow> holdConstantTemp_loop duration setpoint ris e s = Some (r, s')
    \<Longrightarrow> exits I ris r s'"
proof (induction "length (sensor s)" arbitrary: s e rule: less_induct)
  case less
  note run = less.prems(2) [unfolded holdConstantTemp_loop.simps [of duration setpoint ris e s]]
  show ?case
  proof (cases "e < duration")
    case False
    with run less.prems(1) show ?thesis by (simp add: exits_same)
  next
    case True
    with run obtain f where b: "holdConstantTemp_body setpoint s = Some f"
      by (auto split: option.splits)
    note rule = holdConstantTemp_body_rule [OF P less.prems(1) b, of ris]
    show ?thesis
    proof (cases f)
      case (Break r' s'')
      with run True b rule show ?thesis by simp
    next
      case (Next s'')
      with run True b have
        "holdConstantTemp_loop duration setpoint ris (millis s'' - startPhaseTime s'') s''
          = Some (r, s')" by simp
      with less.hyps [of s''] rule Next show ?thesis by simp
    qed
  qed
qed

text \<open>
  \<open>holdConstantTemp(long duration, double setpoint)\<close>. The comparison
  \<open>holdTimeElapsed < duration\<close> is made among \<open>unsigned long\<close>s, so the duration is
  taken as one.
\<close>

definition holdConstantTemp :: "ulong \<Rightarrow> real \<Rightarrow> pcr \<Rightarrow> (bool \<times> pcr) option" where
  "holdConstantTemp duration setpoint s =
     holdConstantTemp_loop duration setpoint True 0 (s\<lparr>startPhaseTime := millis s\<rparr>)"

lemma holdConstantTemp_rule:
  assumes P: "preserved I" and I: "I s"
    and run: "holdConstantTemp duration setpoint s = Some (r, s')"
  shows "exits I True r s'"
  using holdConstantTemp_loop_rule [OF P preserved_start [OF P I]] run
  by (simp add: holdConstantTemp_def)

subsection \<open>\<open>runPCR\<close>\<close>

text \<open>
  After every phase the sketch repeats one block: \<open>if (ris == false) { currCycle =
  NUM_CYCLES; currPhase = FAULT; log(); break; }\<close>. \<open>phase_fault\<close> is the inside of
  the block, \<open>phase_step\<close> the test in front of it; the rest of the pass is \<open>k\<close>.
  A pass through the body of the \<open>for\<close> loop returns \<open>True\<close> when it ended in \<open>break\<close>.
\<close>

definition phase_fault :: "pcr \<Rightarrow> pcr" where
  "phase_fault s = log_line False (s\<lparr>currCycle := NUM_CYCLES, currPhase := FAULT\<rparr>)"

definition phase_step ::
  "(bool \<times> pcr) option \<Rightarrow> (pcr \<Rightarrow> (bool \<times> pcr) option) \<Rightarrow> (bool \<times> pcr) option" where
  "phase_step phase k =
     (case phase of
        None \<Rightarrow> None
      | Some (ris, s) \<Rightarrow> if ris = False then Some (True, phase_fault s) else k s)"

text \<open>The six phases of a pass, each with the assignment to \<open>currPhase\<close> before it.\<close>

definition heatup_to_denature :: "pcr \<Rightarrow> (bool \<times> pcr) option" where
  "heatup_to_denature s = heatUp DENATURE_TEMP (s\<lparr>currPhase := HEATING\<rparr>)"

definition denaturation_phase :: "pcr \<Rightarrow> (bool \<times> pcr) option" where
  "denaturation_phase s =
     (let s = s\<lparr>currPhase := DENATURATION\<rparr> in
      if currCycle s = 0 then holdConstantTemp INITIAL_DENATURE_TIME DENATURE_TEMP s
      else holdConstantTemp DENATURE_TIME DENATURE_TEMP s)"

definition cool_to_annealing :: "pcr \<Rightarrow> (bool \<times> pcr) option" where
  "cool_to_annealing s = coolDown ANNEALING_TEMP COOL_SAMPLE_TIME (s\<lparr>currPhase := COOLING\<rparr>)"

definition annealing_phase :: "pcr \<Rightarrow> (bool \<times> pcr) option" where
  "annealing_phase s = holdConstantTemp ANNEALING_TIME ANNEALING_TEMP (s\<lparr>currPhase := ANNEALING\<rparr>)"

definition heatup_to_extension :: "pcr \<Rightarrow> (bool \<times> pcr) option" where
  "heatup_to_extension s = heatUp EXTENSION_TEMP (s\<lparr>currPhase := HEATING\<rparr>)"

definition extension_phase :: "pcr \<Rightarrow> (bool \<times> pcr) option" where
  "extension_phase s =
     (let s = s\<lparr>currPhase := EXTENSION\<rparr> in
      if currCycle s < NUM_CYCLES - 1 then holdConstantTemp EXTENSION_TIME EXTENSION_TEMP s
      else holdConstantTemp FINAL_EXTENSION_TIME EXTENSION_TEMP s)"

definition cycle :: "pcr \<Rightarrow> (bool \<times> pcr) option" where
  "cycle s =
     phase_step (heatup_to_denature s) (\<lambda>s.
     phase_step (denaturation_phase s) (\<lambda>s.
     phase_step (cool_to_annealing s) (\<lambda>s.
     phase_step (annealing_phase s) (\<lambda>s.
     phase_step (heatup_to_extension s) (\<lambda>s.
     phase_step (extension_phase s) (\<lambda>s.
     Some (False, s)))))))"

text \<open>The regulation routines never write the cycle counter.\<close>

lemma currCycle_preserved: "preserved (\<lambda>s. currCycle s = c)"
  unfolding preserved_def
  by (auto simp: readCelsius_def buttonPressed_def digitalRead_def Let_def split: list.splits)

lemma exits_currCycle: "exits (\<lambda>s. currCycle s = c) ris r s' \<Longrightarrow> currCycle s' = c"
  unfolding exits_def by auto

lemmas heatUp_currCycle = heatUp_rule [OF currCycle_preserved refl, THEN exits_currCycle]
lemmas coolDown_currCycle = coolDown_rule [OF currCycle_preserved refl, THEN exits_currCycle]
lemmas holdConstantTemp_currCycle =
  holdConstantTemp_rule [OF currCycle_preserved refl, THEN exits_currCycle]

lemma phase_step_Some:
  assumes "phase_step phase k = Some (b, s')"
  obtains s1 where "phase = Some (False, s1)" "b" "s' = phase_fault s1"
    | s1 where "phase = Some (True, s1)" "k s1 = Some (b, s')"
  using assms unfolding phase_step_def by (auto split: option.splits if_splits)

lemma phases_currCycle:
  "heatup_to_denature s = Some (r, s') \<Longrightarrow> currCycle s' = currCycle s"
  "denaturation_phase s = Some (r, s') \<Longrightarrow> currCycle s' = currCycle s"
  "cool_to_annealing s = Some (r, s') \<Longrightarrow> currCycle s' = currCycle s"
  "annealing_phase s = Some (r, s') \<Longrightarrow> currCycle s' = currCycle s"
  "heatup_to_extension s = Some (r, s') \<Longrightarrow> currCycle s' = currCycle s"
  "extension_phase s = Some (r, s') \<Longrightarrow> currCycle s' = currCycle s"
  unfolding heatup_to_denature_def denaturation_phase_def cool_to_annealing_def
    annealing_phase_def heatup_to_extension_def extension_phase_def Let_def
  by (auto dest: heatUp_currCycle coolDown_currCycle holdConstantTemp_currCycle
        split: if_splits)

lemma cycle_Some:
  assumes "cycle s = Some (False, s')"
  obtains s1 s2 s3 s4 s5 where
    "heatup_to_denature s = Some (True, s1)" "denaturation_phase s1 = Some (True, s2)"
    "cool_to_annealing s2 = Some (True, s3)" "annealing_phase s3 = Some (True, s4)"
    "heatup_to_extension s4 = Some (True, s5)" "extension_phase s5 = Some (True, s')"
  using assms unfolding cycle_def by (elim phase_step_Some) auto

lemma cycle_currCycle:
  assumes "cycle s = Some (False, s')"
  shows "currCycle s' = currCycle s"
  using assms by (elim cycle_Some) (simp add: phases_currCycle)

text \<open>The \<open>for\<close> loop, from its test on.\<close>

function runPCR_loop :: "pcr \<Rightarrow> pcr option" where
  "runPCR_loop s =
     (if currCycle s < NUM_CYCLES then
        (case cycle s of
           None \<Rightarrow> None
         | Some (True, s') \<Rightarrow> Some s'
         | Some (False, s') \<Rightarrow> runPCR_loop (s'\<lparr>currCycle := currCycle s' + 1\<rparr>))
      else Some s)"
  by pat_completeness auto
termination
  by (relation "measure (\<lambda>s. nat (NUM_CYCLES - currCycle s))")
    (auto dest: cycle_currCycle)

declare runPCR_loop.simps [simp del]

text \<open>\<open>runPCR\<close>: what comes before the loop, the loop, what comes after it.\<close>

definition runPCR_start :: "pcr \<Rightarrow> pcr" where
  "runPCR_start s =
     s\<lparr>startCycleTime := millis s, timeCounter := 0, faultCode := CHR ''0'', currCycle := 0\<rparr>"

definition runPCR_end :: "pcr \<Rightarrow> pcr" where
  "runPCR_end s =
     (let s1 = digitalWrite FAN_PIN True s;
          s2 = (if currPhase s1 \<noteq> FAULT then s1\<lparr>currPhase := IDLE\<rparr> else s1)
      in log_line True s2)"

definition runPCR :: "pcr \<Rightarrow> pcr option" where
  "runPCR s = map_option runPCR_end (runPCR_loop (runPCR_start s))"

section \<open>What the claims speak of\<close>

subsection \<open>Running the sketch on given readings\<close>

text \<open>The equations that evaluate a run on a concrete board.\<close>

named_theorems run_simps \<open>the defining equations of the sketch\<close>

lemmas [run_simps] =
  power_on_def setup_board_def runPCR_start_def runPCR_end_def runPCR_def runPCR_loop.simps
  cycle_def phase_step_def phase_fault_def
  heatup_to_denature_def denaturation_phase_def cool_to_annealing_def annealing_phase_def
  heatup_to_extension_def extension_phase_def
  heatUp_def heatUp_loop.simps heatUp_body_def heatUp_damp.simps heatUp_slope.simps
  heatUp_ceiling.simps coolDown_def coolDown_loop.simps coolDown_body_def
  holdConstantTemp_def holdConstantTemp_loop.simps holdConstantTemp_body_def
  holdConstantTemp_adjust_def
  buttonPressed_def digitalRead_def readCelsius_def digitalWrite.simps delay_def millis_def
  log_line_def run_seconds_def csv_line_def pulseDuration_def c_int_def Let_def params

subsection \<open>The phases of a pass, in a list\<close>

text \<open>
  The six phases of a pass in their order, and the state in which the first of them
  that fails hands control back to \<open>runPCR\<close>, if one fails.
\<close>

definition pass_phases :: "(pcr \<Rightarrow> (bool \<times> pcr) option) list" where
  "pass_phases =
     [heatup_to_denature, denaturation_phase, cool_to_annealing, annealing_phase,
      heatup_to_extension, extension_phase]"

fun first_failure :: "(pcr \<Rightarrow> (bool \<times> pcr) option) list \<Rightarrow> pcr \<Rightarrow> pcr option" where
  "first_failure [] s = None"
| "first_failure (ph # phs) s =
     (case ph s of
        None \<Rightarrow> None
      | Some (ris, s1) \<Rightarrow> if ris then first_failure phs s1 else Some s1)"

text \<open>The chain of \<open>phase_step\<close>s over a list of phases; \<open>cycle\<close> is the chain over the six.\<close>

fun phase_steps :: "(pcr \<Rightarrow> (bool \<times> pcr) option) list \<Rightarrow> pcr \<Rightarrow> (bool \<times> pcr) option" where
  "phase_steps [] s = Some (False, s)"
| "phase_steps (ph # phs) s = phase_step (ph s) (phase_steps phs)"

subsection \<open>The run in the words of the specification\<close>

text \<open>
  The run as the specification words it: the cycles are numbered \<open>0\<close> to \<open>NUM_CYCLES - 1\<close>;
  the denaturation hold of cycle \<open>0\<close> lasts \<open>INITIAL_DENATURE_TIME\<close>, the extension hold
  of cycle \<open>NUM_CYCLES - 1\<close> lasts \<open>FINAL_EXTENSION_TIME\<close>, every other hold has its
  standard duration. Here the number of the cycle is an argument of its own; in the
  sketch it is the global \<open>currCycle\<close>, read in the middle of the pass.
\<close>

definition denature_time_spec :: "int \<Rightarrow> ulong" where
  "denature_time_spec i = (if i = 0 then INITIAL_DENATURE_TIME else DENATURE_TIME)"

definition extension_time_spec :: "int \<Rightarrow> ulong" where
  "extension_time_spec i =
     (if i = NUM_CYCLES - 1 then FINAL_EXTENSION_TIME else EXTENSION_TIME)"

definition cycle_spec :: "int \<Rightarrow> pcr \<Rightarrow> (bool \<times> pcr) option" where
  "cycle_spec i s =
     phase_step (heatUp DENATURE_TEMP (s\<lparr>currPhase := HEATING\<rparr>)) (\<lambda>s.
     phase_step (holdConstantTemp (denature_time_spec i) DENATURE_TEMP
                   (s\<lparr>currPhase := DENATURATION\<rparr>)) (\<lambda>s.
     phase_step (coolDown ANNEALING_TEMP COOL_SAMPLE_TIME (s\<lparr>currPhase := COOLING\<rparr>)) (\<lambda>s.
     phase_step (holdConstantTemp ANNEALING_TIME ANNEALING_TEMP
                   (s\<lparr>currPhase := ANNEALING\<rparr>)) (\<lambda>s.
     phase_step (heatUp EXTENSION_TEMP (s\<lparr>currPhase := HEATING\<rparr>)) (\<lambda>s.
     phase_step (holdConstantTemp (extension_time_spec i) EXTENSION_TEMP
                   (s\<lparr>currPhase := EXTENSION\<rparr>)) (\<lambda>s.
     Some (False, s)))))))"

text \<open>\<open>n\<close> cycles from cycle \<open>i\<close> on; a failed cycle ends the run.\<close>

fun run_spec :: "nat \<Rightarrow> int \<Rightarrow> pcr \<Rightarrow> pcr option" where
  "run_spec 0 i s = Some s"
| "run_spec (Suc n) i s =
     (case cycle_spec i s of
        None \<Rightarrow> None
      | Some (True, s') \<Rightarrow> Some s'
      | Some (False, s') \<Rightarrow> run_spec n (i + 1) (s'\<lparr>currCycle := i + 1\<rparr>))"

subsection \<open>The correction of a hold pass\<close>

text \<open>
  The correction of one pass as the specification words it, for a sample \<open>T\<close>: a heater
  pulse below the setpoint, a fan pulse above the setpoint plus the margin, otherwise a
  wait of the same length; then the pause.
\<close>

definition hold_pass_spec :: "real \<Rightarrow> real \<Rightarrow> event list" where
  "hold_pass_spec setpoint T =
     (if T < setpoint then
        [Write HEAT_PIN True, Delay HOLD_PULSE_DURATION, Write HEAT_PIN False]
      else if T > setpoint + SETPOINT_THRESHOLD_TEMP then
        [Write FAN_PIN True, Delay HOLD_PULSE_DURATION, Write FAN_PIN False]
      else [Delay HOLD_PULSE_DURATION])
     @ [Delay HOLD_PAUSE_DURATION]"

text \<open>
  The sketch \<open>pcrfv.ino\<close> has the same routine with other timing (in its operative
  parameters \<open>HOLD_PULSE_DURATION\<close> 90, \<open>HOLD_PAUSE_DURATION\<close> 210) and without the last
  \<open>else\<close> branch. This is its correction: the statements from \<open>if (currTemp <
  setpoint)\<close> to \<open>delay(HOLD_PAUSE_DURATION)\<close>.
\<close>

definition HOLD_PULSE_DURATION_fv :: ulong where "HOLD_PULSE_DURATION_fv = 90"
definition HOLD_PAUSE_DURATION_fv :: ulong where "HOLD_PAUSE_DURATION_fv = 210"

definition holdConstantTemp_adjust_fv :: "real \<Rightarrow> pcr \<Rightarrow> pcr" where
  "holdConstantTemp_adjust_fv setpoint s =
     delay HOLD_PAUSE_DURATION_fv
       (if currTemp s < setpoint then
          digitalWrite HEAT_PIN False
            (delay HOLD_PULSE_DURATION_fv (digitalWrite HEAT_PIN True s))
        else if currTemp s > setpoint + SETPOINT_THRESHOLD_TEMP then
          digitalWrite FAN_PIN False
            (delay HOLD_PULSE_DURATION_fv (digitalWrite FAN_PIN True s))
        else s)"

subsection \<open>Records that are in order\<close>

text \<open>A logged record is in order when its fault code is \<open>'0'\<close> or its phase letter is \<open>F\<close>.\<close>

definition logged_ok :: "event \<Rightarrow> bool" where
  "logged_ok e =
     (case e of Emit r \<Rightarrow> fault_code r = CHR ''0'' \<or> phase_letter r = CHR ''F'' | _ \<Rightarrow> True)"

section \<open>The claims\<close>

subsection \<open>The heating pulse is bounded and shrinks towards the setpoint\<close>

lemma c_int_mono:
  assumes "x \<le> y"
  shows "c_int x \<le> c_int y"
proof (cases "0 \<le> x")
  case True
  with assms show ?thesis by (simp add: c_int_def floor_mono)
next
  case False
  show ?thesis
  proof (cases "0 \<le> y")
    case True
    have "\<lceil>x\<rceil> \<le> 0" using False by (simp add: ceiling_le_zero)
    moreover have "0 \<le> \<lfloor>y\<rfloor>" using True by simp
    moreover have "c_int x = \<lceil>x\<rceil>" "c_int y = \<lfloor>y\<rfloor>"
      using False True by (simp_all add: c_int_def)
    ultimately show ?thesis by linarith
  next
    case y: False
    with False assms show ?thesis by (simp add: c_int_def ceiling_mono)
  qed
qed

lemma c_int_of_int [simp]: "c_int (real_of_int n) = n"
  by (simp add: c_int_def)

text \<open>
  Claim C7. In every pass of the \<open>heatUp\<close> loop the sample is below the setpoint, and
  the pulse is \<open>pulseDuration setpoint currTemp\<close>. For samples \<open>T1 \<le> T2 < S\<close> both
  pulses lie between \<open>MIN_PULSE_DURATION\<close> and \<open>MAX_PULSE_DURATION\<close>, and the pulse
  for the sample nearer to the setpoint is not the longer one.
\<close>

theorem pulseDuration_bounded_monotone:
  assumes "T1 \<le> T2" and "T2 < S"
  shows "MIN_PULSE_DURATION \<le> pulseDuration S T1 \<and> pulseDuration S T1 \<le> MAX_PULSE_DURATION
       \<and> MIN_PULSE_DURATION \<le> pulseDuration S T2 \<and> pulseDuration S T2 \<le> MAX_PULSE_DURATION
       \<and> pulseDuration S T2 \<le> pulseDuration S T1"
proof -
  let ?f = "\<lambda>T. min (real_of_int MAX_PULSE_DURATION)
             (real_of_int PULSE_DURATION_MULT * (S - T) + real_of_int MIN_PULSE_DURATION)"
  have bounds: "real_of_int MIN_PULSE_DURATION \<le> ?f T \<and> ?f T \<le> real_of_int MAX_PULSE_DURATION"
    if "T < S" for T
    using that by (simp add: params)
  have lo: "MIN_PULSE_DURATION \<le> pulseDuration S T" and hi: "pulseDuration S T \<le> MAX_PULSE_DURATION"
    if "T < S" for T
    using c_int_mono [of "real_of_int MIN_PULSE_DURATION" "?f T"]
      c_int_mono [of "?f T" "real_of_int MAX_PULSE_DURATION"] bounds [OF that]
    by (simp_all add: pulseDuration_def)
  have "?f T2 \<le> ?f T1" using assms(1) by (simp add: params min_le_iff_disj)
  then have "pulseDuration S T2 \<le> pulseDuration S T1"
    unfolding pulseDuration_def by (rule c_int_mono)
  moreover have "T1 < S" using assms by simp
  ultimately show ?thesis using lo hi assms(2) by simp
qed

theorem pulseDuration_bounded_monotone_witness:
  "(93::real) \<le> 93.9 \<and> (93.9::real) < 94
   \<and> pulseDuration 94 93 = 650 \<and> pulseDuration 94 93.9 = 140
   \<and> MIN_PULSE_DURATION \<le> pulseDuration 94 93.9 \<and> pulseDuration 94 93 \<le> MAX_PULSE_DURATION
   \<and> pulseDuration 94 93.9 \<le> pulseDuration 94 93"
  using pulseDuration_bounded_monotone [of 93 "93.9" 94]
  by (simp add: pulseDuration_def c_int_def params)

subsection \<open>The logger writes once per second, or when forced\<close>

lemma events_since_append: "trace s' = trace s @ evs \<Longrightarrow> events_since s s' = evs"
  by (simp add: events_since_def)

lemma events_since_self [simp]: "events_since s s = []"
  by (simp add: events_since_def)

lemma log_line_cases:
  "log_line force s =
     (if timeCounter s < run_seconds s \<or> force
      then s\<lparr>timeCounter := run_seconds s, trace := trace s @ [Emit (csv_line s)]\<rparr>
      else s)"
  by (simp add: log_line_def Let_def)

lemma log_line_trace:
  "trace (log_line force s) =
     trace s @ (if timeCounter s < run_seconds s \<or> force then [Emit (csv_line s)] else [])"
  by (simp add: log_line_cases)

text \<open>
  Claim C9. A call of the logger emits a record exactly when the whole seconds of the
  run have passed the value stored in \<open>timeCounter\<close>, or the call is forced. An emission
  stores the seconds in \<open>timeCounter\<close>; a call that emits nothing changes nothing. So
  after a forced emission an unforced call in the same whole second emits nothing.
\<close>

theorem log_line_rate_limited:
  "(events_since s (log_line force s) \<noteq> [] \<longleftrightarrow> timeCounter s < run_seconds s \<or> force)
   \<and> (timeCounter s < run_seconds s \<or> force \<longrightarrow>
        events_since s (log_line force s) = [Emit (csv_line s)]
        \<and> timeCounter (log_line force s) = run_seconds s)
   \<and> (\<not> (timeCounter s < run_seconds s \<or> force) \<longrightarrow> log_line force s = s)
   \<and> (timeCounter s2 = timeCounter (log_line True s) \<and> run_seconds s2 = run_seconds s \<longrightarrow>
        log_line False s2 = s2)"
  by (simp add: log_line_cases events_since_def)

theorem log_line_rate_limited_witness:
  "timeCounter ((power_on [] [])\<lparr>clock := 3400\<rparr>) < run_seconds ((power_on [] [])\<lparr>clock := 3400\<rparr>)
   \<and> events_since ((power_on [] [])\<lparr>clock := 3400\<rparr>)
         (log_line False ((power_on [] [])\<lparr>clock := 3400\<rparr>))
       = [Emit (csv_line ((power_on [] [])\<lparr>clock := 3400\<rparr>))]
   \<and> timeCounter (log_line True ((power_on [] [])\<lparr>clock := 3400\<rparr>)) = 3
   \<and> run_seconds ((log_line True ((power_on [] [])\<lparr>clock := 3400\<rparr>))\<lparr>clock := 3900\<rparr>) = 3
   \<and> log_line False ((log_line True ((power_on [] [])\<lparr>clock := 3400\<rparr>))\<lparr>clock := 3900\<rparr>)
       = (log_line True ((power_on [] [])\<lparr>clock := 3400\<rparr>))\<lparr>clock := 3900\<rparr>"
proof -
  let ?w = "(power_on [] [])\<lparr>clock := 3400\<rparr>"
  let ?w2 = "(log_line True ?w)\<lparr>clock := 3900\<rparr>"
  have a: "run_seconds ?w = 3" "timeCounter ?w = 0"
    by (simp_all add: run_seconds_def millis_def power_on_def)
  have b: "run_seconds ?w2 = 3" "timeCounter ?w2 = timeCounter (log_line True ?w)"
    by (simp_all add: run_seconds_def millis_def power_on_def)
  from log_line_rate_limited [of ?w False ?w2] log_line_rate_limited [of ?w True ?w2] a b
  show ?thesis by simp
qed

subsection \<open>The entry checks of \<open>heatUp\<close>\<close>

text \<open>The state in which \<open>heatUp\<close> makes its entry checks, when there is a reading.\<close>

lemma heatUp_entry:
  assumes "sensor s = T # rest"
  shows "heatUp setpoint s =
     (let s4 = log_line False
                 ((digitalWrite FAN_PIN False s)
                    \<lparr>startPhaseTime := millis (digitalWrite FAN_PIN False s), sensor := rest,
                      prevTemp := T, currTemp := T\<rparr>)
      in if T < ROOM_TEMP then Some (False, s4\<lparr>faultCode := CHR ''2''\<rparr>)
         else if T > setpoint then Some (False, s4\<lparr>faultCode := CHR ''3''\<rparr>)
         else heatUp_loop setpoint False 0 s4)"
  using assms by (simp add: heatUp_def readCelsius_def Let_def)

lemma heatUp_entry_events:
  "filter is_Write
     (events_since s
        ((log_line False
            ((digitalWrite FAN_PIN False s)
               \<lparr>startPhaseTime := a, sensor := rest, prevTemp := T, currTemp := T\<rparr>))
         \<lparr>faultCode := c\<rparr>))
   = [Write FAN_PIN False]"
  by (simp add: events_since_def log_line_trace)

text \<open>
  Claim C1. When the first sample of \<open>heatUp\<close> is below \<open>ROOM_TEMP\<close>, the routine
  returns failure with fault code \<open>'2'\<close>. The only pin it writes is the fan, off; the
  heater pin is left as it was.
\<close>

theorem heatUp_sensor_failure:
  assumes "sensor s = T # rest" and "T < ROOM_TEMP"
  shows "\<exists>s'. heatUp setpoint s = Some (False, s') \<and> faultCode s' = CHR ''2''
           \<and> filter is_Write (events_since s s') = [Write FAN_PIN False]
           \<and> heatPin s' = heatPin s \<and> sensor s' = rest"
  using assms by (simp add: heatUp_entry Let_def heatUp_entry_events)

theorem heatUp_sensor_failure_witness:
  "sensor (setup_board (power_on [17] [])) = [17] \<and> (17::real) < ROOM_TEMP
   \<and> (\<exists>s'. heatUp DENATURE_TEMP (setup_board (power_on [17] [])) = Some (False, s')
          \<and> faultCode s' = CHR ''2''
          \<and> filter is_Write (events_since (setup_board (power_on [17] [])) s')
              = [Write FAN_PIN False]
          \<and> heatPin s' = False \<and> sensor s' = [])"
proof -
  have a: "sensor (setup_board (power_on [17] [])) = [17]"
    "heatPin (setup_board (power_on [17] [])) = False"
    by (simp_all add: setup_board_def power_on_def)
  have b: "(17::real) < ROOM_TEMP" by (simp add: params)
  from heatUp_sensor_failure [OF a(1) b, of DENATURE_TEMP] a b show ?thesis by simp
qed

text \<open>
  Claim C2. When the first sample of \<open>heatUp\<close> is at least \<open>ROOM_TEMP\<close> and above the
  setpoint, the routine returns failure with fault code \<open>'3'\<close>, again without a write
  to the heater pin.
\<close>

theorem heatUp_entry_above_setpoint:
  assumes "sensor s = T # rest" and "ROOM_TEMP \<le> T" and "setpoint < T"
  shows "\<exists>s'. heatUp setpoint s = Some (False, s') \<and> faultCode s' = CHR ''3''
           \<and> filter is_Write (events_since s s') = [Write FAN_PIN False]
           \<and> heatPin s' = heatPin s \<and> sensor s' = rest"
  using assms by (simp add: heatUp_entry Let_def heatUp_entry_events)

theorem heatUp_entry_above_setpoint_witness:
  "sensor (setup_board (power_on [80] [])) = [80] \<and> ROOM_TEMP \<le> 80 \<and> EXTENSION_TEMP < 80
   \<and> (\<exists>s'. heatUp EXTENSION_TEMP (setup_board (power_on [80] [])) = Some (False, s')
          \<and> faultCode s' = CHR ''3''
          \<and> filter is_Write (events_since (setup_board (power_on [80] [])) s')
              = [Write FAN_PIN False]
          \<and> heatPin s' = False \<and> sensor s' = [])"
proof -
  have a: "sensor (setup_board (power_on [80] [])) = [80]"
    "heatPin (setup_board (power_on [80] [])) = False"
    by (simp_all add: setup_board_def power_on_def)
  have b: "ROOM_TEMP \<le> 80" "EXTENSION_TEMP < 80" by (simp_all add: params)
  from heatUp_entry_above_setpoint [OF a(1) b] a b show ?thesis by simp
qed

text \<open>
  Claim C3 says that a failure of \<open>heatUp\<close> always comes with a fault code that
  \<open>heatUp\<close> set. The sketch does not keep it: a first sample equal to the setpoint
  passes both entry checks, the loop \<open>while (currTemp < setpoint)\<close> is not entered, and
  \<open>ris\<close> still holds its initial \<open>false\<close>. The routine returns failure and leaves the
  fault code as it found it, although its comment promises \<open>true\<close> when the setpoint is
  reached.
\<close>

theorem heatUp_entry_at_setpoint_fails_unflagged:
  assumes "sensor s = setpoint # rest" and "ROOM_TEMP \<le> setpoint"
  shows "\<exists>s'. heatUp setpoint s = Some (False, s') \<and> faultCode s' = faultCode s"
  using assms by (simp add: heatUp_entry Let_def heatUp_loop.simps)

theorem heatUp_entry_at_setpoint_fails_unflagged_witness:
  "sensor (runPCR_start (setup_board (power_on [94] []))) = [DENATURE_TEMP]
   \<and> ROOM_TEMP \<le> DENATURE_TEMP
   \<and> (\<exists>s'. heatUp DENATURE_TEMP (runPCR_start (setup_board (power_on [94] []))) = Some (False, s')
          \<and> faultCode s' = CHR ''0'')"
proof -
  have a: "sensor (runPCR_start (setup_board (power_on [94] []))) = [DENATURE_TEMP]"
    "faultCode (runPCR_start (setup_board (power_on [94] []))) = CHR ''0''"
    by (simp_all add: runPCR_start_def setup_board_def power_on_def params)
  have b: "ROOM_TEMP \<le> DENATURE_TEMP" by (simp add: params)
  from heatUp_entry_at_setpoint_fails_unflagged [OF a(1) b] a b show ?thesis by simp
qed

text \<open>The whole run on that reading: it ends in phase Fault with fault code \<open>'0'\<close>.\<close>

lemma runPCR_at_setpoint:
  "map_option (\<lambda>s. (currPhase s, faultCode s, currCycle s)) (runPCR (setup_board (power_on [94] [])))
   = Some (FAULT, CHR ''0'', 32)"
  by (simp add: run_simps)

text \<open>
  The same happens when a reading taken while the slope guard or the ceiling guard
  waits is at or above the setpoint: the loop test fails and \<open>ris\<close> is still \<open>false\<close>.
\<close>

lemma heatUp_guard_reaches_setpoint:
  "map_option (\<lambda>(ris, s). (ris, faultCode s))
     (heatUp 94 (runPCR_start (setup_board (power_on [20, 30, 50, 99, 101, 95] []))))
   = Some (False, CHR ''0'')"
  by (simp add: run_simps)

subsection \<open>\<open>coolDown\<close> at its setpoint, and the fan on the way out\<close>

lemma coolDown_entry:
  assumes "sensor s = T # rest"
  shows "coolDown setpoint maxTimeout s =
     (case coolDown_loop setpoint maxTimeout True
             (log_line False (s\<lparr>startPhaseTime := millis s, sensor := rest, currTemp := T\<rparr>)) of
        None \<Rightarrow> None
      | Some (ris, s2) \<Rightarrow> Some (ris, digitalWrite FAN_PIN False s2))"
  using assms by (simp add: coolDown_def readCelsius_def)

text \<open>
  Claim C10. When the first sample of \<open>coolDown\<close> is not above the setpoint plus the
  fan margin, the routine returns success at once: its only pin write is the fan, off;
  it reads no button level and leaves the button variables and the fault code as they
  were. And whenever \<open>coolDown\<close> returns, with success or with failure, the fan pin is
  off and that write is the last event.
\<close>

theorem coolDown_at_setpoint_and_fan_off:
  "(sensor s = T # rest \<and> T \<le> setpoint + FAN_THRESHOLD_TEMP \<longrightarrow>
      (\<exists>s'. coolDown setpoint maxTimeout s = Some (True, s')
         \<and> filter is_Write (events_since s s') = [Write FAN_PIN False]
         \<and> faultCode s' = faultCode s \<and> button s' = button s
         \<and> currInButton s' = currInButton s \<and> prevInButton s' = prevInButton s
         \<and> sensor s' = rest))
   \<and> (coolDown setpoint maxTimeout s = Some (r, s1) \<longrightarrow>
        fanPin s1 = False \<and> last (trace s1) = Write FAN_PIN False)"
proof (intro conjI impI)
  assume a: "sensor s = T # rest \<and> T \<le> setpoint + FAN_THRESHOLD_TEMP"
  let ?s1 = "log_line False (s\<lparr>startPhaseTime := millis s, sensor := rest, currTemp := T\<rparr>)"
  have "coolDown_loop setpoint maxTimeout True ?s1 = Some (True, ?s1)"
    using a by (simp add: coolDown_loop.simps)
  then have "coolDown setpoint maxTimeout s = Some (True, digitalWrite FAN_PIN False ?s1)"
    using a by (simp add: coolDown_entry)
  moreover have "filter is_Write (events_since s (digitalWrite FAN_PIN False ?s1))
      = [Write FAN_PIN False]"
    by (simp add: events_since_def log_line_trace)
  ultimately show "\<exists>s'. coolDown setpoint maxTimeout s = Some (True, s')
         \<and> filter is_Write (events_since s s') = [Write FAN_PIN False]
         \<and> faultCode s' = faultCode s \<and> button s' = button s
         \<and> currInButton s' = currInButton s \<and> prevInButton s' = prevInButton s
         \<and> sensor s' = rest"
    by simp
next
  assume "coolDown setpoint maxTimeout s = Some (r, s1)"
  then obtain s2 where "s1 = digitalWrite FAN_PIN False s2"
    by (auto simp: coolDown_def split: option.splits)
  then show "fanPin s1 = False" and "last (trace s1) = Write FAN_PIN False" by simp_all
qed

text \<open>
  Two runs of \<open>coolDown(ANNEALING_TEMP)\<close>: one that starts at 60.5 degrees and returns
  at once, and one that starts at 70 degrees and is stopped by the button (the pin goes
  from high to low) after one sample; the fan was on and is off at the return.
\<close>

theorem coolDown_at_setpoint_and_fan_off_witness:
  "sensor (setup_board (power_on [60.5] [False])) = [60.5]
   \<and> 60.5 \<le> ANNEALING_TEMP + FAN_THRESHOLD_TEMP
   \<and> (\<exists>s'. coolDown ANNEALING_TEMP COOL_SAMPLE_TIME (setup_board (power_on [60.5] [False]))
            = Some (True, s')
          \<and> filter is_Write (events_since (setup_board (power_on [60.5] [False])) s')
              = [Write FAN_PIN False]
          \<and> faultCode s' = CHR ''0'' \<and> button s' = [False])
   \<and> (\<exists>s1. coolDown ANNEALING_TEMP COOL_SAMPLE_TIME
                 ((setup_board (power_on [70, 69] [False]))\<lparr>prevInButton := True\<rparr>)
            = Some (False, s1)
          \<and> filter is_Write (trace s1)
              = [Write HEAT_PIN False, Write FAN_PIN False, Write FAN_PIN True, Write FAN_PIN False]
          \<and> faultCode s1 = CHR ''1'' \<and> fanPin s1 = False
          \<and> last (trace s1) = Write FAN_PIN False)"
proof -
  let ?a = "setup_board (power_on [60.5] [False])"
  let ?b = "(setup_board (power_on [70, 69] [False]))\<lparr>prevInButton := True\<rparr>"
  have a: "sensor ?a = [60.5]" and a': "faultCode ?a = CHR ''0''" "button ?a = [False]"
    by (simp_all add: setup_board_def power_on_def)
  have m: "60.5 \<le> ANNEALING_TEMP + FAN_THRESHOLD_TEMP" by (simp add: params)
  obtain s1 where b: "coolDown ANNEALING_TEMP COOL_SAMPLE_TIME ?b = Some (False, s1)"
    and b': "filter is_Write (trace s1)
      = [Write HEAT_PIN False, Write FAN_PIN False, Write FAN_PIN True, Write FAN_PIN False]"
      "faultCode s1 = CHR ''1''"
    by (simp add: run_simps)
  from coolDown_at_setpoint_and_fan_off
         [of ?a "60.5" "[]" ANNEALING_TEMP COOL_SAMPLE_TIME] a m
  obtain s' where c: "coolDown ANNEALING_TEMP COOL_SAMPLE_TIME ?a = Some (True, s')"
    "filter is_Write (events_since ?a s') = [Write FAN_PIN False]"
    "faultCode s' = faultCode ?a" "button s' = button ?a"
    by blast
  from coolDown_at_setpoint_and_fan_off
         [of ?b 0 "[]" ANNEALING_TEMP COOL_SAMPLE_TIME False s1] b
  have d: "fanPin s1 = False" "last (trace s1) = Write FAN_PIN False"
    by blast+
  have "\<exists>s'. coolDown ANNEALING_TEMP COOL_SAMPLE_TIME ?a = Some (True, s')
          \<and> filter is_Write (events_since ?a s') = [Write FAN_PIN False]
          \<and> faultCode s' = CHR ''0'' \<and> button s' = [False]"
    using c a' by auto
  moreover have "\<exists>s1. coolDown ANNEALING_TEMP COOL_SAMPLE_TIME ?b = Some (False, s1)
          \<and> filter is_Write (trace s1)
              = [Write HEAT_PIN False, Write FAN_PIN False, Write FAN_PIN True, Write FAN_PIN False]
          \<and> faultCode s1 = CHR ''1'' \<and> fanPin s1 = False
          \<and> last (trace s1) = Write FAN_PIN False"
    using b b' d by auto
  ultimately show ?thesis using a m by blast
qed

subsection \<open>One pass of \<open>holdConstantTemp\<close> drives one output at most\<close>

lemma holdConstantTemp_adjust_events:
  "events_since s (holdConstantTemp_adjust setpoint s) = hold_pass_spec setpoint (currTemp s)"
  by (simp add: events_since_def holdConstantTemp_adjust_def hold_pass_spec_def)

lemma holdConstantTemp_adjust_trace:
  "trace (holdConstantTemp_adjust setpoint s) = trace s @ hold_pass_spec setpoint (currTemp s)"
  by (simp add: holdConstantTemp_adjust_def hold_pass_spec_def)

lemma holdConstantTemp_adjust_currTemp [simp]:
  "currTemp (holdConstantTemp_adjust setpoint s) = currTemp s"
  by (simp add: holdConstantTemp_adjust_def)

lemma hold_pass_spec_one_output:
  "\<not> (Write HEAT_PIN True \<in> set (hold_pass_spec setpoint T)
      \<and> Write FAN_PIN True \<in> set (hold_pass_spec setpoint T))"
  by (simp add: hold_pass_spec_def)

text \<open>
  Claim C8, amended. In \<open>pcrssv.ino\<close> a pass of the loop that is not stopped by the
  button takes one sample \<open>T\<close>, may log it, and then does what \<open>hold_pass_spec\<close>
  says: it never switches both outputs on, and in the dead band it switches none and
  waits \<open>HOLD_PULSE_DURATION\<close> before the pause. A pass stopped by the button writes no
  pin. In \<open>pcrfv.ino\<close> the correction pulses one output at most as well, but in the
  dead band it goes straight to the pause.
\<close>

theorem holdConstantTemp_pass_one_output:
  "(holdConstantTemp_body setpoint s = Some (Next s') \<longrightarrow>
      filter (\<lambda>e. \<not> is_Emit e) (events_since s s') = hold_pass_spec setpoint (currTemp s')
      \<and> \<not> (Write HEAT_PIN True \<in> set (events_since s s')
            \<and> Write FAN_PIN True \<in> set (events_since s s')))
   \<and> (holdConstantTemp_body setpoint s = Some (Break r s') \<longrightarrow> events_since s s' = [])
   \<and> events_since s (holdConstantTemp_adjust_fv setpoint s) =
       (if currTemp s < setpoint then
          [Write HEAT_PIN True, Delay HOLD_PULSE_DURATION_fv, Write HEAT_PIN False,
           Delay HOLD_PAUSE_DURATION_fv]
        else if currTemp s > setpoint + SETPOINT_THRESHOLD_TEMP then
          [Write FAN_PIN True, Delay HOLD_PULSE_DURATION_fv, Write FAN_PIN False,
           Delay HOLD_PAUSE_DURATION_fv]
        else [Delay HOLD_PAUSE_DURATION_fv])"
proof (intro conjI impI)
  assume run: "holdConstantTemp_body setpoint s = Some (Next s')"
  obtain p s1 where bp: "buttonPressed s = (p, s1)" by (cases "buttonPressed s")
  from run bp obtain T s2 where rd: "readCelsius s1 = Some (T, s2)"
    and s': "s' = holdConstantTemp_adjust setpoint (log_line False (s2\<lparr>currTemp := T\<rparr>))"
    by (cases p) (auto simp: holdConstantTemp_body_def split: option.splits)
  have tr: "trace s2 = trace s"
    using readCelsius_frame(15) [OF rd] buttonPressed_frame(13) [OF bp] by simp
  have ev: "events_since s s' =
      (if timeCounter (s2\<lparr>currTemp := T\<rparr>) < run_seconds (s2\<lparr>currTemp := T\<rparr>)
       then [Emit (csv_line (s2\<lparr>currTemp := T\<rparr>))] else [])
      @ hold_pass_spec setpoint T"
    using tr by (simp add: s' events_since_def holdConstantTemp_adjust_trace log_line_trace)
  have nolog: "filter (\<lambda>e. \<not> is_Emit e) (hold_pass_spec setpoint T) = hold_pass_spec setpoint T"
    by (simp add: hold_pass_spec_def)
  show "filter (\<lambda>e. \<not> is_Emit e) (events_since s s') = hold_pass_spec setpoint (currTemp s')"
    using nolog unfolding ev by (simp add: s')
  show "\<not> (Write HEAT_PIN True \<in> set (events_since s s')
            \<and> Write FAN_PIN True \<in> set (events_since s s'))"
    using hold_pass_spec_one_output [of setpoint T] unfolding ev by simp
next
  assume run: "holdConstantTemp_body setpoint s = Some (Break r s')"
  obtain p s1 where bp: "buttonPressed s = (p, s1)" by (cases "buttonPressed s")
  from run bp have "s' = s1\<lparr>faultCode := CHR ''1''\<rparr>"
    by (cases p) (auto simp: holdConstantTemp_body_def split: option.splits)
  then show "events_since s s' = []"
    using buttonPressed_frame(13) [OF bp] by (simp add: events_since_def)
next
  show "events_since s (holdConstantTemp_adjust_fv setpoint s) =
       (if currTemp s < setpoint then
          [Write HEAT_PIN True, Delay HOLD_PULSE_DURATION_fv, Write HEAT_PIN False,
           Delay HOLD_PAUSE_DURATION_fv]
        else if currTemp s > setpoint + SETPOINT_THRESHOLD_TEMP then
          [Write FAN_PIN True, Delay HOLD_PULSE_DURATION_fv, Write FAN_PIN False,
           Delay HOLD_PAUSE_DURATION_fv]
        else [Delay HOLD_PAUSE_DURATION_fv])"
    by (simp add: events_since_def holdConstantTemp_adjust_fv_def)
qed

text \<open>
  A pass at 94.25 degrees while holding 94: the dead band. And a pass during which the
  button goes from high to low.
\<close>

theorem holdConstantTemp_pass_one_output_witness:
  "(\<exists>s'. holdConstantTemp_body DENATURE_TEMP (setup_board (power_on [94.25] [])) = Some (Next s')
      \<and> currTemp s' = 94.25
      \<and> filter (\<lambda>e. \<not> is_Emit e) (events_since (setup_board (power_on [94.25] [])) s')
          = [Delay HOLD_PULSE_DURATION, Delay HOLD_PAUSE_DURATION])
   \<and> (\<exists>s'. holdConstantTemp_body DENATURE_TEMP
               ((setup_board (power_on [94.25] [False]))\<lparr>prevInButton := True\<rparr>)
             = Some (Break False s')
          \<and> events_since ((setup_board (power_on [94.25] [False]))\<lparr>prevInButton := True\<rparr>) s' = [])"
proof -
  let ?a = "setup_board (power_on [94.25] [])"
  let ?b = "(setup_board (power_on [94.25] [False]))\<lparr>prevInButton := True\<rparr>"
  obtain s' where a: "holdConstantTemp_body DENATURE_TEMP ?a = Some (Next s')"
    and T: "currTemp s' = 94.25"
    by (simp add: run_simps)
  from holdConstantTemp_pass_one_output [of DENATURE_TEMP ?a s'] a
  have "filter (\<lambda>e. \<not> is_Emit e) (events_since ?a s') = hold_pass_spec DENATURE_TEMP (currTemp s')"
    by blast
  also have "\<dots> = [Delay HOLD_PULSE_DURATION, Delay HOLD_PAUSE_DURATION]"
    unfolding T by (simp add: hold_pass_spec_def params)
  finally have 1: "\<exists>s'. holdConstantTemp_body DENATURE_TEMP ?a = Some (Next s')
      \<and> currTemp s' = 94.25
      \<and> filter (\<lambda>e. \<not> is_Emit e) (events_since ?a s')
          = [Delay HOLD_PULSE_DURATION, Delay HOLD_PAUSE_DURATION]"
    using a T by blast
  obtain s'' where b: "holdConstantTemp_body DENATURE_TEMP ?b = Some (Break False s'')"
    by (simp add: run_simps)
  from holdConstantTemp_pass_one_output [of DENATURE_TEMP ?b s'' False] b
  have "events_since ?b s'' = []" by blast
  with b have 2: "\<exists>s'. holdConstantTemp_body DENATURE_TEMP ?b = Some (Break False s')
          \<and> events_since ?b s' = []"
    by blast
  from 1 2 show ?thesis by blast
qed

text \<open>
  Claim C8 as it was stated fails of \<open>pcrfv.ino\<close>: at 94.25 degrees while holding 94
  the pass waits \<open>HOLD_PAUSE_DURATION\<close> only.
\<close>

theorem holdConstantTemp_fv_dead_band_counterexample:
  "events_since ((power_on [] [])\<lparr>currTemp := 94.25\<rparr>)
     (holdConstantTemp_adjust_fv DENATURE_TEMP ((power_on [] [])\<lparr>currTemp := 94.25\<rparr>))
   = [Delay HOLD_PAUSE_DURATION_fv]
   \<and> Delay HOLD_PULSE_DURATION_fv
       \<notin> set (events_since ((power_on [] [])\<lparr>currTemp := 94.25\<rparr>)
                (holdConstantTemp_adjust_fv DENATURE_TEMP ((power_on [] [])\<lparr>currTemp := 94.25\<rparr>)))"
  by (simp add: events_since_def holdConstantTemp_adjust_fv_def power_on_def params
        HOLD_PAUSE_DURATION_fv_def HOLD_PULSE_DURATION_fv_def)

subsection \<open>A failed phase ends the run\<close>

lemma phase_steps_fun:
  "phase_steps [] = (\<lambda>s. Some (False, s))"
  "phase_steps (ph # phs) = (\<lambda>s. phase_step (ph s) (phase_steps phs))"
  by (rule ext, simp)+

lemma cycle_phase_steps: "cycle s = phase_steps pass_phases s"
  by (simp add: cycle_def pass_phases_def phase_steps_fun)

lemma phase_steps_failure:
  "first_failure phs s = Some s1 \<Longrightarrow> phase_steps phs s = Some (True, phase_fault s1)"
proof (induction phs arbitrary: s)
  case Nil
  then show ?case by simp
next
  case (Cons ph phs)
  then show ?case
    by (cases "ph s") (auto simp: phase_step_def split: if_splits)
qed

lemma phase_fault_frame [simp]:
  "currCycle (phase_fault s) = NUM_CYCLES" "currPhase (phase_fault s) = FAULT"
  "faultCode (phase_fault s) = faultCode s" "sensor (phase_fault s) = sensor s"
  "button (phase_fault s) = button s" "heatPin (phase_fault s) = heatPin s"
  "fanPin (phase_fault s) = fanPin s"
  by (simp_all add: phase_fault_def)

lemma phase_fault_events:
  "filter is_Write (events_since s (phase_fault s)) = []"
  by (simp add: phase_fault_def events_since_def log_line_trace)

lemma runPCR_end_frame [simp]:
  "currCycle (runPCR_end s) = currCycle s" "faultCode (runPCR_end s) = faultCode s"
  "sensor (runPCR_end s) = sensor s" "button (runPCR_end s) = button s"
  "currPhase (runPCR_end s) = (if currPhase s = FAULT then FAULT else IDLE)"
  "fanPin (runPCR_end s) = True" "heatPin (runPCR_end s) = heatPin s"
  by (simp_all add: runPCR_end_def Let_def)

lemma runPCR_end_fault:
  assumes "currPhase s = FAULT"
  shows "events_since s (runPCR_end s)
         = [Write FAN_PIN True, Emit (csv_line (digitalWrite FAN_PIN True s))]"
  using assms by (simp add: runPCR_end_def Let_def events_since_def log_line_trace)

lemma csv_line_fields [simp]:
  "phase_letter (csv_line s) = hd (phases (currPhase s))"
  "cycle_number (csv_line s) = currCycle s + 1"
  "fault_code (csv_line s) = faultCode s"
  by (simp_all add: csv_line_def Let_def)

text \<open>
  Claim C4. Let a phase of the pass that starts in \<open>s\<close> return failure, in the state
  \<open>s1\<close>. Then the pass sets the cycle counter to \<open>NUM_CYCLES\<close> and the phase to Fault and
  leaves the loop, which ends in that very state: no later phase runs. What is left of
  the run switches the fan on and emits one record, whatever the rate limiter holds; the
  record shows phase \<open>F\<close>, cycle \<open>NUM_CYCLES + 1\<close> and the fault code the phase left. No
  reading and no button level is taken after the failure, and the heater is not written.
\<close>

theorem runPCR_failure_aborts:
  assumes "currCycle s < NUM_CYCLES" and "first_failure pass_phases s = Some s1"
  shows "runPCR_loop s = Some (phase_fault s1)
       \<and> currCycle (phase_fault s1) = NUM_CYCLES \<and> currPhase (phase_fault s1) = FAULT
       \<and> filter is_Write (events_since s1 (phase_fault s1)) = []
       \<and> events_since (phase_fault s1) (runPCR_end (phase_fault s1))
           = [Write FAN_PIN True, Emit (csv_line (digitalWrite FAN_PIN True (phase_fault s1)))]
       \<and> phase_letter (csv_line (digitalWrite FAN_PIN True (phase_fault s1))) = CHR ''F''
       \<and> cycle_number (csv_line (digitalWrite FAN_PIN True (phase_fault s1))) = NUM_CYCLES + 1
       \<and> fault_code (csv_line (digitalWrite FAN_PIN True (phase_fault s1))) = faultCode s1
       \<and> currCycle (runPCR_end (phase_fault s1)) = NUM_CYCLES
       \<and> currPhase (runPCR_end (phase_fault s1)) = FAULT
       \<and> sensor (runPCR_end (phase_fault s1)) = sensor s1
       \<and> button (runPCR_end (phase_fault s1)) = button s1"
proof -
  have "cycle s = Some (True, phase_fault s1)"
    using assms(2) by (simp add: cycle_phase_steps phase_steps_failure)
  then have "runPCR_loop s = Some (phase_fault s1)"
    using assms(1) by (simp add: runPCR_loop.simps)
  then show ?thesis
    by (simp add: runPCR_end_fault phase_fault_events)
qed

text \<open>
  Two runs. In the first the sensor reads 17 degrees and \<open>heatUp\<close> fails at once. In
  the second the chamber reaches 94 degrees with one pulse and the button is pressed in
  the first pass of the denaturation hold.
\<close>

theorem runPCR_failure_aborts_witness:
  "currCycle (runPCR_start (setup_board (power_on [17] []))) < NUM_CYCLES
   \<and> (\<exists>s1. first_failure pass_phases (runPCR_start (setup_board (power_on [17] []))) = Some s1
          \<and> faultCode s1 = CHR ''2'' \<and> currPhase s1 = HEATING
          \<and> runPCR_loop (runPCR_start (setup_board (power_on [17] []))) = Some (phase_fault s1)
          \<and> runPCR (setup_board (power_on [17] [])) = Some (runPCR_end (phase_fault s1))
          \<and> fault_code (csv_line (digitalWrite FAN_PIN True (phase_fault s1))) = CHR ''2'')
   \<and> currCycle (runPCR_start (setup_board (power_on [20, 94] [True, False]))) < NUM_CYCLES
   \<and> (\<exists>s1. first_failure pass_phases (runPCR_start (setup_board (power_on [20, 94] [True, False])))
            = Some s1
          \<and> faultCode s1 = CHR ''1'' \<and> currPhase s1 = DENATURATION
          \<and> runPCR_loop (runPCR_start (setup_board (power_on [20, 94] [True, False])))
              = Some (phase_fault s1)
          \<and> fault_code (csv_line (digitalWrite FAN_PIN True (phase_fault s1))) = CHR ''1'')"
proof -
  let ?a = "runPCR_start (setup_board (power_on [17] []))"
  let ?b = "runPCR_start (setup_board (power_on [20, 94] [True, False]))"
  have c: "currCycle ?a < NUM_CYCLES" "currCycle ?b < NUM_CYCLES"
    by (simp_all add: runPCR_start_def NUM_CYCLES_def)
  obtain s1 where a: "first_failure pass_phases ?a = Some s1"
    and a': "faultCode s1 = CHR ''2''" "currPhase s1 = HEATING"
    by (simp add: pass_phases_def run_simps)
  obtain s2 where b: "first_failure pass_phases ?b = Some s2"
    and b': "faultCode s2 = CHR ''1''" "currPhase s2 = DENATURATION"
    by (simp add: pass_phases_def run_simps)
  note ta = runPCR_failure_aborts [OF c(1) a]
  note tb = runPCR_failure_aborts [OF c(2) b]
  have "runPCR (setup_board (power_on [17] [])) = Some (runPCR_end (phase_fault s1))"
    using ta by (simp add: runPCR_def)
  with ta a a' have 1: "\<exists>s1. first_failure pass_phases ?a = Some s1
          \<and> faultCode s1 = CHR ''2'' \<and> currPhase s1 = HEATING
          \<and> runPCR_loop ?a = Some (phase_fault s1)
          \<and> runPCR (setup_board (power_on [17] [])) = Some (runPCR_end (phase_fault s1))
          \<and> fault_code (csv_line (digitalWrite FAN_PIN True (phase_fault s1))) = CHR ''2''"
    by auto
  from tb b b' have 2: "\<exists>s1. first_failure pass_phases ?b = Some s1
          \<and> faultCode s1 = CHR ''1'' \<and> currPhase s1 = DENATURATION
          \<and> runPCR_loop ?b = Some (phase_fault s1)
          \<and> fault_code (csv_line (digitalWrite FAN_PIN True (phase_fault s1))) = CHR ''1''"
    by auto
  from c 1 2 show ?thesis by blast
qed

subsection \<open>The first and the last cycle\<close>

lemma phase_step_cong:
  assumes "\<And>r s1. ph = Some (r, s1) \<Longrightarrow> currCycle s1 = c"
    and "\<And>s1. currCycle s1 = c \<Longrightarrow> k s1 = k' s1"
  shows "phase_step ph k = phase_step ph k'"
  using assms by (auto simp: phase_step_def split: option.splits)

lemma cycle_is_cycle_spec:
  assumes "currCycle s < NUM_CYCLES"
  shows "cycle s = cycle_spec (currCycle s) s"
proof -
  define c where "c = currCycle s"
  define k5 where "k5 = (\<lambda>s. phase_step (extension_phase s) (\<lambda>s. Some (False, s)))"
  define k4 where "k4 = (\<lambda>s. phase_step (heatup_to_extension s) k5)"
  define k3 where "k3 = (\<lambda>s. phase_step (annealing_phase s) k4)"
  define k2 where "k2 = (\<lambda>s. phase_step (cool_to_annealing s) k3)"
  define k1 where "k1 = (\<lambda>s. phase_step (denaturation_phase s) k2)"
  define k5' where "k5' = (\<lambda>s. phase_step (holdConstantTemp (extension_time_spec c)
      EXTENSION_TEMP (s\<lparr>currPhase := EXTENSION\<rparr>)) (\<lambda>s. Some (False, s)))"
  define k4' where "k4' = (\<lambda>s. phase_step (heatUp EXTENSION_TEMP (s\<lparr>currPhase := HEATING\<rparr>)) k5')"
  define k3' where "k3' = (\<lambda>s. phase_step (holdConstantTemp ANNEALING_TIME ANNEALING_TEMP
      (s\<lparr>currPhase := ANNEALING\<rparr>)) k4')"
  define k2' where "k2' = (\<lambda>s. phase_step (coolDown ANNEALING_TEMP COOL_SAMPLE_TIME
      (s\<lparr>currPhase := COOLING\<rparr>)) k3')"
  define k1' where "k1' = (\<lambda>s. phase_step (holdConstantTemp (denature_time_spec c)
      DENATURE_TEMP (s\<lparr>currPhase := DENATURATION\<rparr>)) k2')"
  have 5: "k5 s5 = k5' s5" if "currCycle s5 = c" for s5
    using that assms
    by (simp add: k5_def k5'_def c_def extension_phase_def extension_time_spec_def Let_def)
  have 4: "k4 s4 = k4' s4" if "currCycle s4 = c" for s4
    unfolding k4_def k4'_def heatup_to_extension_def [symmetric]
    by (rule phase_step_cong [where c = c]) (simp_all add: phases_currCycle that 5)
  have 3: "k3 s3 = k3' s3" if "currCycle s3 = c" for s3
    unfolding k3_def k3'_def annealing_phase_def [symmetric]
    by (rule phase_step_cong [where c = c]) (simp_all add: phases_currCycle that 4)
  have 2: "k2 s2 = k2' s2" if "currCycle s2 = c" for s2
    unfolding k2_def k2'_def cool_to_annealing_def [symmetric]
    by (rule phase_step_cong [where c = c]) (simp_all add: phases_currCycle that 3)
  have 1: "k1 s1 = k1' s1" if "currCycle s1 = c" for s1
  proof -
    have "denaturation_phase s1
        = holdConstantTemp (denature_time_spec c) DENATURE_TEMP (s1\<lparr>currPhase := DENATURATION\<rparr>)"
      using that by (simp add: denaturation_phase_def denature_time_spec_def Let_def)
    moreover have "phase_step (denaturation_phase s1) k2 = phase_step (denaturation_phase s1) k2'"
      by (rule phase_step_cong [where c = c]) (simp_all add: phases_currCycle that 2)
    ultimately show ?thesis by (simp add: k1_def k1'_def)
  qed
  have "phase_step (heatup_to_denature s) k1 = phase_step (heatup_to_denature s) k1'"
    by (rule phase_step_cong [where c = c]) (simp_all add: phases_currCycle c_def 1)
  then show ?thesis
    unfolding cycle_def cycle_spec_def c_def [symmetric]
      k1_def k2_def k3_def k4_def k5_def k1'_def k2'_def k3'_def k4'_def k5'_def
    by (simp add: heatup_to_denature_def)
qed

lemma runPCR_loop_is_run_spec:
  "0 \<le> currCycle s \<Longrightarrow> nat (NUM_CYCLES - currCycle s) = n
    \<Longrightarrow> runPCR_loop s = run_spec n (currCycle s) s"
proof (induction n arbitrary: s)
  case 0
  then show ?case by (simp add: runPCR_loop.simps)
next
  case (Suc n)
  then have lt: "currCycle s < NUM_CYCLES" by simp
  have step: "runPCR_loop (s'\<lparr>currCycle := currCycle s' + 1\<rparr>)
      = run_spec n (currCycle s + 1) (s'\<lparr>currCycle := currCycle s + 1\<rparr>)"
    if "cycle s = Some (False, s')" for s'
  proof -
    have c: "currCycle s' = currCycle s" using that by (rule cycle_currCycle)
    show ?thesis
      using Suc.IH [of "s'\<lparr>currCycle := currCycle s' + 1\<rparr>"] Suc.prems c by simp
  qed
  show ?case
  proof (cases "cycle s")
    case None
    with lt show ?thesis
      by (simp add: runPCR_loop.simps [of s] cycle_is_cycle_spec [symmetric])
  next
    case (Some a)
    obtain b s' where a: "a = (b, s')" by (cases a)
    show ?thesis
    proof (cases b)
      case True
      with Some a lt show ?thesis
        by (simp add: runPCR_loop.simps [of s] cycle_is_cycle_spec [symmetric])
    next
      case False
      with Some a lt step [of s'] cycle_currCycle [of s s'] show ?thesis
        by (simp add: runPCR_loop.simps [of s] cycle_is_cycle_spec [symmetric])
    qed
  qed
qed

text \<open>
  Claim C5. The run of the sketch is the run of the specification: \<open>NUM_CYCLES\<close> cycles
  numbered from \<open>0\<close>, of which cycle \<open>0\<close> holds the denaturation temperature for
  \<open>INITIAL_DENATURE_TIME\<close>, cycle \<open>NUM_CYCLES - 1\<close> holds the extension temperature for
  \<open>FINAL_EXTENSION_TIME\<close>, and every other hold lasts its standard time.
\<close>

theorem runPCR_first_last_cycle:
  "runPCR s = map_option runPCR_end (run_spec (nat NUM_CYCLES) 0 (runPCR_start s))"
  using runPCR_loop_is_run_spec [of "runPCR_start s" "nat NUM_CYCLES"]
  by (simp add: runPCR_def runPCR_start_def)

subsection \<open>Fault code and phase in the log\<close>

lemma logged_ok_simps [simp]:
  "logged_ok (Write p v)" "logged_ok (Delay ms)"
  "logged_ok (Emit r) \<longleftrightarrow> fault_code r = CHR ''0'' \<or> phase_letter r = CHR ''F''"
  by (simp_all add: logged_ok_def)

lemma log_line_logged_ok:
  assumes "list_all logged_ok (trace s)" and "faultCode s = CHR ''0'' \<or> currPhase s = FAULT"
  shows "list_all logged_ok (trace (log_line force s))"
  using assms by (auto simp: log_line_trace)

lemma logged_ok_preserved:
  "preserved (\<lambda>s. list_all logged_ok (trace s) \<and> faultCode s = CHR ''0'' \<and> currPhase s = p)"
  unfolding preserved_def
  by (auto simp: log_line_logged_ok readCelsius_def buttonPressed_def digitalRead_def Let_def
        split: list.splits)

lemma exits_logged_ok:
  assumes "exits (\<lambda>s. list_all logged_ok (trace s) \<and> faultCode s = CHR ''0'' \<and> currPhase s = p)
             ris r s'"
  shows "list_all logged_ok (trace s')" and "currPhase s' = p" and "r \<Longrightarrow> faultCode s' = CHR ''0''"
  using assms unfolding exits_def by auto

text \<open>
  Each of the six phases, started with fault code \<open>'0'\<close>: what it logs is in order, it
  returns in its own phase, and with fault code \<open>'0'\<close> when it returns success.
\<close>

lemma phase_logged_ok:
  assumes "ph \<in> set pass_phases" and "list_all logged_ok (trace s)" and "faultCode s = CHR ''0''"
    and "ph s = Some (r, s')"
  shows "list_all logged_ok (trace s') \<and> currPhase s' \<noteq> FAULT \<and> (r \<longrightarrow> faultCode s' = CHR ''0'')"
proof -
  note P = logged_ok_preserved
  have start: "list_all logged_ok (trace (s\<lparr>currPhase := p\<rparr>))
      \<and> faultCode (s\<lparr>currPhase := p\<rparr>) = CHR ''0'' \<and> currPhase (s\<lparr>currPhase := p\<rparr>) = p" for p
    using assms(2,3) by simp
  from assms(1) consider "ph = heatup_to_denature" | "ph = denaturation_phase"
    | "ph = cool_to_annealing" | "ph = annealing_phase" | "ph = heatup_to_extension"
    | "ph = extension_phase"
    by (auto simp: pass_phases_def)
  then show ?thesis
  proof cases
    case 1
    with assms(4) have "heatUp DENATURE_TEMP (s\<lparr>currPhase := HEATING\<rparr>) = Some (r, s')"
      by (simp add: heatup_to_denature_def)
    from exits_logged_ok [OF heatUp_rule [OF P start this]] show ?thesis by simp
  next
    case 2
    with assms(4) obtain d where
      "holdConstantTemp d DENATURE_TEMP (s\<lparr>currPhase := DENATURATION\<rparr>) = Some (r, s')"
      by (auto simp: denaturation_phase_def Let_def split: if_splits)
    from exits_logged_ok [OF holdConstantTemp_rule [OF P start this]] show ?thesis by simp
  next
    case 3
    with assms(4) have
      "coolDown ANNEALING_TEMP COOL_SAMPLE_TIME (s\<lparr>currPhase := COOLING\<rparr>) = Some (r, s')"
      by (simp add: cool_to_annealing_def)
    from exits_logged_ok [OF coolDown_rule [OF P start this]] show ?thesis by simp
  next
    case 4
    with assms(4) have
      "holdConstantTemp ANNEALING_TIME ANNEALING_TEMP (s\<lparr>currPhase := ANNEALING\<rparr>) = Some (r, s')"
      by (simp add: annealing_phase_def)
    from exits_logged_ok [OF holdConstantTemp_rule [OF P start this]] show ?thesis by simp
  next
    case 5
    with assms(4) have "heatUp EXTENSION_TEMP (s\<lparr>currPhase := HEATING\<rparr>) = Some (r, s')"
      by (simp add: heatup_to_extension_def)
    from exits_logged_ok [OF heatUp_rule [OF P start this]] show ?thesis by simp
  next
    case 6
    with assms(4) obtain d where
      "holdConstantTemp d EXTENSION_TEMP (s\<lparr>currPhase := EXTENSION\<rparr>) = Some (r, s')"
      by (auto simp: extension_phase_def Let_def split: if_splits)
    from exits_logged_ok [OF holdConstantTemp_rule [OF P start this]] show ?thesis by simp
  qed
qed

lemma phase_fault_logged_ok:
  "list_all logged_ok (trace s) \<Longrightarrow> list_all logged_ok (trace (phase_fault s))"
  by (simp add: phase_fault_def log_line_logged_ok)

lemma phase_steps_logged_ok:
  assumes "set phs \<subseteq> set pass_phases"
  shows "list_all logged_ok (trace s) \<Longrightarrow> faultCode s = CHR ''0''
    \<Longrightarrow> phase_steps phs s = Some (b, s')
    \<Longrightarrow> list_all logged_ok (trace s')
        \<and> (if b then currPhase s' = FAULT else faultCode s' = CHR ''0'')"
  using assms
proof (induction phs arbitrary: s)
  case Nil
  then show ?case by simp
next
  case (Cons ph phs)
  from Cons.prems(3) obtain r s1 where ph: "ph s = Some (r, s1)"
    by (cases "ph s") (auto simp: phase_step_def)
  have "ph \<in> set pass_phases" using Cons.prems(4) by simp
  note ok = phase_logged_ok [OF this Cons.prems(1,2) ph]
  show ?case
  proof (cases r)
    case True
    with Cons.prems(3) ph have "phase_steps phs s1 = Some (b, s')"
      by (simp add: phase_step_def)
    with Cons.IH [of s1] ok True Cons.prems(4) show ?thesis by simp
  next
    case False
    with Cons.prems(3) ph have "b" "s' = phase_fault s1"
      by (simp_all add: phase_step_def)
    with ok show ?thesis by (simp add: phase_fault_logged_ok)
  qed
qed

lemma cycle_logged_ok:
  assumes "list_all logged_ok (trace s)" and "faultCode s = CHR ''0''"
    and "cycle s = Some (b, s')"
  shows "list_all logged_ok (trace s')"
    and "if b then currPhase s' = FAULT else faultCode s' = CHR ''0''"
  using phase_steps_logged_ok [OF subset_refl assms(1,2)] assms(3)
  by (simp_all add: cycle_phase_steps)

lemma runPCR_loop_logged_ok:
  "list_all logged_ok (trace s) \<Longrightarrow> faultCode s = CHR ''0'' \<Longrightarrow> runPCR_loop s = Some s'
    \<Longrightarrow> list_all logged_ok (trace s') \<and> (faultCode s' = CHR ''0'' \<or> currPhase s' = FAULT)"
proof (induction s rule: runPCR_loop.induct)
  case (1 s)
  show ?case
  proof (cases "currCycle s < NUM_CYCLES")
    case False
    with "1.prems" show ?thesis by (simp add: runPCR_loop.simps [of s])
  next
    case True
    with "1.prems"(3) obtain b s1 where c: "cycle s = Some (b, s1)"
      by (cases "cycle s") (auto simp: runPCR_loop.simps [of s])
    note ok = cycle_logged_ok [OF "1.prems"(1,2) c]
    show ?thesis
    proof (cases b)
      case True
      with "1.prems"(3) c \<open>currCycle s < NUM_CYCLES\<close> have "s' = s1"
        by (simp add: runPCR_loop.simps [of s])
      with ok True show ?thesis by simp
    next
      case False
      with "1.prems"(3) c \<open>currCycle s < NUM_CYCLES\<close>
      have run: "runPCR_loop (s1\<lparr>currCycle := currCycle s1 + 1\<rparr>) = Some s'"
        by (simp add: runPCR_loop.simps [of s])
      have "list_all logged_ok (trace (s1\<lparr>currCycle := currCycle s1 + 1\<rparr>))"
        "faultCode (s1\<lparr>currCycle := currCycle s1 + 1\<rparr>) = CHR ''0''"
        using ok False by simp_all
      with "1.IH" [of "(b, s1)" b s1] \<open>currCycle s < NUM_CYCLES\<close> c False run
      show ?thesis by simp
    qed
  qed
qed

lemma runPCR_logged_ok:
  assumes "list_all logged_ok (trace s)" and "runPCR s = Some s'"
  shows "list_all logged_ok (trace s') \<and> (faultCode s' = CHR ''0'' \<or> currPhase s' = FAULT)"
proof -
  from assms(2) obtain s1 where lp: "runPCR_loop (runPCR_start s) = Some s1"
    and s': "s' = runPCR_end s1"
    by (auto simp: runPCR_def)
  have "list_all logged_ok (trace (runPCR_start s))" "faultCode (runPCR_start s) = CHR ''0''"
    using assms(1) by (simp_all add: runPCR_start_def)
  from runPCR_loop_logged_ok [OF this lp]
  have ok: "list_all logged_ok (trace s1)" "faultCode s1 = CHR ''0'' \<or> currPhase s1 = FAULT"
    by simp_all
  have "list_all logged_ok (trace (runPCR_end s1))"
    unfolding runPCR_end_def Let_def
    by (rule log_line_logged_ok) (use ok in auto)
  with ok(2) s' show ?thesis by auto
qed

text \<open>
  Claim C6, amended. Every record a run emits has fault code \<open>'0'\<close> unless its phase
  is Fault, and so has the state in which the run ends. Each phase that \<open>runPCR\<close> starts
  with fault code \<open>'0'\<close> hands control back in its own phase, not in Fault, and with
  fault code \<open>'0'\<close> when it returns success.
\<close>

theorem fault_code_none_outside_fault:
  "(list_all logged_ok (trace s) \<and> runPCR s = Some s' \<longrightarrow>
      list_all logged_ok (trace s') \<and> (faultCode s' = CHR ''0'' \<or> currPhase s' = FAULT))
   \<and> (list_all logged_ok (trace s) \<and> faultCode s = CHR ''0''
        \<and> ph \<in> set pass_phases \<and> ph s = Some (r, s1) \<longrightarrow>
      currPhase s1 \<noteq> FAULT \<and> (r \<longrightarrow> faultCode s1 = CHR ''0''))"
  using runPCR_logged_ok [of s s'] phase_logged_ok [of ph s r s1] by blast

text \<open>
  A run that reaches 94 degrees with two pulses, logging once on the way, and is stopped
  by the button in the first pass of the denaturation hold.
\<close>

theorem fault_code_none_outside_fault_witness:
  "list_all logged_ok (trace (setup_board (power_on [20, 30, 94] [True, True, False])))
   \<and> (\<exists>s'. runPCR (setup_board (power_on [20, 30, 94] [True, True, False])) = Some s'
          \<and> length (filter is_Emit (trace s')) = 2
          \<and> list_all logged_ok (trace s')
          \<and> currPhase s' = FAULT \<and> faultCode s' = CHR ''1'')
   \<and> faultCode (runPCR_start (setup_board (power_on [20, 30, 94] [True, True, False]))) = CHR ''0''
   \<and> heatup_to_denature \<in> set pass_phases
   \<and> (\<exists>s1. heatup_to_denature (runPCR_start (setup_board (power_on [20, 30, 94] [True, True, False])))
            = Some (True, s1)
          \<and> currPhase s1 = HEATING \<and> faultCode s1 = CHR ''0'')"
proof -
  let ?w = "setup_board (power_on [20, 30, 94] [True, True, False])"
  have w: "list_all logged_ok (trace ?w)" "list_all logged_ok (trace (runPCR_start ?w))"
    "faultCode (runPCR_start ?w) = CHR ''0''"
    by (simp_all add: runPCR_start_def setup_board_def power_on_def)
  have m: "heatup_to_denature \<in> set pass_phases" by (simp add: pass_phases_def)
  obtain s' where run: "runPCR ?w = Some s'"
    and e: "length (filter is_Emit (trace s')) = 2" "currPhase s' = FAULT" "faultCode s' = CHR ''1''"
    by (simp add: run_simps)
  obtain s1 where h: "heatup_to_denature (runPCR_start ?w) = Some (True, s1)"
    and h': "currPhase s1 = HEATING"
    by (simp add: run_simps)
  from fault_code_none_outside_fault [of ?w s' heatup_to_denature True s1] w(1) run
  have 1: "list_all logged_ok (trace s')" by blast
  from fault_code_none_outside_fault [of "runPCR_start ?w" s' heatup_to_denature True s1] w(2,3) m h
  have 2: "faultCode s1 = CHR ''0''" by blast
  from w m run e h h' 1 2 show ?thesis by blast
qed

text \<open>
  Claim C6 as it was stated fails at a return to \<open>runPCR\<close>: with a first reading of 17
  degrees \<open>heatUp\<close> comes back with fault code \<open>'2'\<close> while the phase is still Heating.
  \<open>runPCR\<close> sets the phase to Fault only then.
\<close>

theorem fault_code_before_fault_phase_counterexample:
  "\<exists>s1. heatup_to_denature (runPCR_start (setup_board (power_on [17] []))) = Some (False, s1)
      \<and> currPhase s1 = HEATING \<and> faultCode s1 = CHR ''2''"
  by (simp add: run_simps)

end
